theory Spec2Isabelle
  imports Complex_Main "HOL-Library.Sublist"
begin

section \<open>Python strings\<close>

text \<open>
  A Python \<open>str\<close> is a sequence of Unicode code points. A code point is a natural number and
  a string is a list of them, so that the rupee sign (U+20B9) of the amount patterns and the
  non-ASCII digits and spaces that \<open>\\d\<close> and \<open>\\s\<close> accept are single characters, as they
  are for \<open>re\<close>. \<open>str\<close> turns a literal of the theory into such a string.
\<close>

type_synonym pychar = nat
type_synonym pystr = "pychar list"

definition str :: "string \<Rightarrow> pystr" where
  "str s = map of_char s"

text \<open>\<open>sub in s\<close> on strings: \<open>sub\<close> occurs in \<open>s\<close> as a contiguous run.\<close>

fun py_in :: "pystr \<Rightarrow> pystr \<Rightarrow> bool" where
  "py_in sub [] = (sub = [])"
| "py_in sub (c # cs) = (prefix sub (c # cs) \<or> py_in sub cs)"

text \<open>
  \<open>str.lower()\<close>. The ASCII and Latin-1 capitals move to their small letters; U+0130 becomes
  \<open>i\<close> followed by U+0307 and the Kelvin sign U+212A becomes \<open>k\<close>: these are the only code
  points outside ASCII whose lower case contains an ASCII character. Every other code point
  has a lower case without ASCII characters and is left as it is: the result is only ever
  searched for the ASCII keywords below.
\<close>

definition lower_char :: "pychar \<Rightarrow> pystr" where
  "lower_char c =
     (if 65 \<le> c \<and> c \<le> 90 then [c + 32]
      else if c < 192 then [c]
      else if c \<le> 222 \<and> c \<noteq> 215 then [c + 32]
      else if c = 304 then [105, 775]
      else if c = 8490 then [107]
      else [c])"

definition lower :: "pystr \<Rightarrow> pystr" where
  "lower s = concat (map lower_char s)"

section \<open>The categorizer\<close>

record category_result =
  category :: pystr
  confidence :: pystr
  reason :: pystr

text \<open>
  \<open>categorize_expense\<close> is eighteen loops of one shape, each over its own keyword list and
  each returning from the function at the first keyword found in the lowered text or the
  lowered merchant. A rule is the list of keywords, the category returned and the word the
  reason names the keyword with; \<open>rules\<close> lists them in the order of the source.
\<close>

record rule =
  rule_keywords :: "string list"
  rule_category :: string
  label :: string

definition accommodation_keywords :: "string list" where
  "accommodation_keywords =
    [''hotel'', ''resort'', ''lodge'', ''guest house'', ''homestay'', ''stay'', ''room rent'',
     ''booking hotel'', ''check-in'', ''night'', ''accommodation'', ''inn'', ''motel'',
     ''suite'', ''reservation'', ''hospitality'', ''rooms'', ''nights'', ''check in'',
     ''check out'', ''hotel bill'', ''room service'', ''room charge'', ''room rate'',
     ''lodging'', ''airbnb'']"

definition electricity_keywords :: "string list" where
  "electricity_keywords =
    [''electricity bill'', ''power bill'', ''electric bill'', ''energy bill'',
     ''electricity'', ''power'', ''electric'', ''energy charge'', ''power supply'',
     ''bses'', ''tata power'', ''adani power'', ''reliance energy'', ''torrent power'',
     ''electricity board'', ''power board'', ''discom'', ''electric company'',
     ''power distribution'', ''electrical services'', ''power utilities'',
     ''energy services'', ''kwh'', ''unit consumption'', ''meter reading'',
     ''transmission charge'', ''distribution charge'', ''grid'', ''transformer'']"

definition food_keywords :: "string list" where
  "food_keywords =
    [''restaurant'', ''cafe'', ''coffee'', ''tea'', ''pizza'', ''burger'', ''biryani'', ''meal'',
     ''dining'', ''eat'', ''kitchen'', ''food'', ''swiggy'', ''zomato'', ''dominos'',
     ''mcdonalds'', ''kfc'', ''subway'', ''starbucks'', ''lunch'', ''dinner'', ''breakfast'',
     ''snack'', ''bakery'', ''diner'', ''bistro'', ''eatery'', ''canteen'', ''dhaba'',
     ''tiffin'', ''sweet'', ''juice'', ''lassi'', ''chai'', ''beverage'', ''ice cream'',
     ''dessert'']"

definition transport_keywords :: "string list" where
  "transport_keywords =
    [''cab'', ''taxi'', ''auto'', ''bus'', ''train'', ''metro'', ''flight'', ''airline'',
     ''air ticket'', ''uber'', ''ola'', ''journey'', ''railway'', ''airport'', ''petrol'',
     ''diesel'', ''fuel'', ''parking'', ''toll'', ''transport'', ''ride'', ''trip'', ''indigo'',
     ''spicejet'', ''air india'', ''railways'', ''irctc'', ''station'', ''platform'']"

definition shopping_keywords :: "string list" where
  "shopping_keywords =
    [''fashion'', ''clothing'', ''shirt'', ''dress'', ''shoes'', ''bag'', ''accessories'',
     ''myntra'', ''flipkart'', ''amazon'', ''reliance trends'', ''lifestyle'', ''westside'',
     ''mall'', ''shop'', ''store'', ''retail'', ''apparel'', ''garment'', ''jewelry'', ''watch'',
     ''sunglasses'', ''belt'', ''wallet'', ''footwear'', ''handbag'']"

definition healthcare_keywords :: "string list" where
  "healthcare_keywords =
    [''medical'', ''hospital'', ''pharmacy'', ''medicine'', ''doctor'', ''clinic'', ''health'',
     ''apollo'', ''fortis'', ''max'', ''medanta'', ''cipla'', ''chemist'', ''prescription'',
     ''dental'', ''dentist'', ''lab'', ''pathology'', ''diagnostic'', ''scan'', ''x-ray'',
     ''vaccination'', ''injection'', ''surgery'', ''treatment'', ''consultation'', ''therapy'']"

definition grocery_keywords :: "string list" where
  "grocery_keywords =
    [''grocery'', ''supermarket'', ''mart'', ''vegetables'', ''fruits'', ''milk'', ''bread'',
     ''big bazaar'', ''dmart'', ''reliance fresh'', ''spencer'', ''more'', ''star bazaar'',
     ''household'', ''cleaning'', ''detergent'', ''soap'', ''shampoo'', ''toothpaste'',
     ''tissue'', ''toilet paper'', ''kitchen'', ''utensils'', ''provisions'']"

definition mobile_keywords :: "string list" where
  "mobile_keywords =
    [''mobile'', ''internet'', ''wifi'', ''broadband'', ''data'', ''airtel'', ''jio'',
     ''vodafone'', ''bsnl'', ''recharge'', ''telecom'', ''sim'', ''phone'', ''prepaid'',
     ''postpaid'', ''network'', ''cellular'', ''smartphone'']"

definition entertainment_keywords :: "string list" where
  "entertainment_keywords =
    [''movie'', ''cinema'', ''theatre'', ''entertainment'', ''games'', ''sports'',
     ''pvr'', ''inox'', ''book my show'', ''netflix'', ''amazon prime'', ''hotstar'',
     ''spotify'', ''youtube'', ''gaming'', ''concert'', ''show'', ''event'', ''movie ticket'']"

definition office_keywords :: "string list" where
  "office_keywords =
    [''stationery'', ''office supplies'', ''pen'', ''paper'', ''printer'', ''toner'',
     ''office'', ''workspace'', ''co-working'']"

definition utility_keywords :: "string list" where
  "utility_keywords =
    [''water bill'', ''gas bill'', ''water supply bill'', ''municipal water'',
     ''water corporation'', ''gas corporation'', ''municipal corporation bill'',
     ''water board'', ''gas company'', ''lpg bill'', ''pipeline gas'',
     ''sewage bill'', ''drainage bill'', ''sanitation bill'', ''waste management'',
     ''municipal tax'', ''property tax bill'', ''water tank cleaning'']"

definition travel_keywords :: "string list" where
  "travel_keywords =
    [''vacation'', ''holiday'', ''tour'', ''package'', ''itinerary'', ''sightseeing'',
     ''visa'', ''passport'', ''travel agent'', ''travel insurance'', ''makemytrip'',
     ''cleartrip'', ''goibibo'', ''yatra'', ''booking.com'', ''agoda'', ''expedia'',
     ''travel booking'']"

definition education_keywords :: "string list" where
  "education_keywords =
    [''education'', ''course'', ''school'', ''college'', ''university'', ''tuition'',
     ''coaching'', ''training'', ''workshop'', ''seminar'', ''certification'', ''exam'',
     ''admission'', ''byju'', ''unacademy'', ''vedantu'', ''coursera'', ''udemy'',
     ''educational'', ''learning'', ''study'']"

definition home_keywords :: "string list" where
  "home_keywords =
    [''home'', ''furniture'', ''appliance'', ''repair'', ''maintenance'', ''renovation'',
     ''interior'', ''decoration'', ''painting'', ''plumbing'', ''electrical work'',
     ''carpenter'', ''maid'', ''cook'', ''babysitter'', ''family'', ''child care'',
     ''ikea'', ''pepperfry'', ''urban ladder'', ''godrej'']"

definition personal_care_keywords :: "string list" where
  "personal_care_keywords =
    [''salon'', ''spa'', ''beauty'', ''haircut'', ''massage'', ''facial'', ''manicure'',
     ''pedicure'', ''cosmetics'', ''makeup'', ''skincare'', ''grooming'', ''barber'',
     ''parlour'', ''wellness'', ''fitness'', ''gym'', ''yoga'', ''beauty salon'',
     ''hair salon'', ''nail salon'']"

definition gifts_keywords :: "string list" where
  "gifts_keywords =
    [''gift'', ''festival'', ''celebration'', ''birthday'', ''anniversary'', ''wedding'',
     ''diwali'', ''christmas'', ''eid'', ''holi'', ''rakhi'', ''valentine'', ''party'',
     ''decoration'', ''flowers'', ''greeting card'', ''present'', ''occasion'',
     ''gift shop'', ''flower shop'', ''birthday gift'', ''anniversary gift'']"

definition emi_keywords :: "string list" where
  "emi_keywords =
    [''emi'', ''loan'', ''interest'', ''installment'', ''credit'', ''debt'', ''repayment'',
     ''mortgage'', ''finance'', ''bank'', ''hdfc'', ''icici'', ''sbi'', ''axis'', ''kotak'',
     ''bajaj finserv'', ''lending'', ''borrowing'']"

definition investment_keywords :: "string list" where
  "investment_keywords =
    [''investment'', ''sip'', ''mutual fund'', ''stock'', ''share'', ''trading'',
     ''portfolio'', ''dividend'', ''returns'', ''zerodha'', ''groww'', ''upstox'',
     ''paytm money'', ''kuvera'', ''etmoney'', ''systematic investment'',
     ''equity'', ''bond'', ''fd'', ''rd'', ''ppf'', ''nps'']"

definition rules :: "rule list" where
  "rules =
    [\<lparr>rule_keywords = accommodation_keywords, rule_category = ''Accommodation'',
        label = ''accommodation''\<rparr>,
     \<lparr>rule_keywords = electricity_keywords, rule_category = ''Bills & Utilities'',
        label = ''electricity''\<rparr>,
     \<lparr>rule_keywords = food_keywords, rule_category = ''Food & Dining'', label = ''food''\<rparr>,
     \<lparr>rule_keywords = transport_keywords, rule_category = ''Transportation'',
        label = ''transport''\<rparr>,
     \<lparr>rule_keywords = shopping_keywords, rule_category = ''Shopping & Clothes'',
        label = ''shopping''\<rparr>,
     \<lparr>rule_keywords = healthcare_keywords, rule_category = ''Healthcare'',
        label = ''healthcare''\<rparr>,
     \<lparr>rule_keywords = grocery_keywords, rule_category = ''Groceries & Household'',
        label = ''grocery''\<rparr>,
     \<lparr>rule_keywords = mobile_keywords, rule_category = ''Mobile & Internet'',
        label = ''mobile/internet''\<rparr>,
     \<lparr>rule_keywords = entertainment_keywords, rule_category = ''Entertainment'',
        label = ''entertainment''\<rparr>,
     \<lparr>rule_keywords = office_keywords, rule_category = ''Office Expense'', label = ''office''\<rparr>,
     \<lparr>rule_keywords = utility_keywords, rule_category = ''Bills & Utilities'',
        label = ''utility''\<rparr>,
     \<lparr>rule_keywords = travel_keywords, rule_category = ''Travel & Vacation'',
        label = ''travel''\<rparr>,
     \<lparr>rule_keywords = education_keywords, rule_category = ''Education & Courses'',
        label = ''education''\<rparr>,
     \<lparr>rule_keywords = home_keywords, rule_category = ''Home & Family'',
        label = ''home/family''\<rparr>,
     \<lparr>rule_keywords = personal_care_keywords, rule_category = ''Personal Care'',
        label = ''personal care''\<rparr>,
     \<lparr>rule_keywords = gifts_keywords, rule_category = ''Gifts & Festivals'',
        label = ''gifts/festival''\<rparr>,
     \<lparr>rule_keywords = emi_keywords, rule_category = ''EMI & Loans'', label = ''EMI/loan''\<rparr>,
     \<lparr>rule_keywords = investment_keywords, rule_category = ''Investments & SIP'',
        label = ''investment''\<rparr>]"

text \<open>
  The result a loop returns at \<open>keyword\<close>: the reason is the f-string
  \<open>Found <label> keyword '<keyword>' in <place>\<close>, the place being the merchant name when
  the keyword is in the lowered merchant and the receipt text otherwise.
\<close>

definition rule_result :: "rule \<Rightarrow> string \<Rightarrow> pystr \<Rightarrow> category_result" where
  "rule_result r keyword merchant_lower =
     \<lparr>category = str (rule_category r),
      confidence = str ''high'',
      reason = str (''Found '' @ label r @ '' keyword '' @ [CHR 0x27] @ keyword @ [CHR 0x27]
                 @ '' in ''
                 @ (if py_in (str keyword) merchant_lower then ''merchant name''
                    else ''receipt text''))\<rparr>"

text \<open>One loop: the first keyword of the list found in either string, if there is one.\<close>

fun scan_keywords :: "string list \<Rightarrow> pystr \<Rightarrow> pystr \<Rightarrow> string option" where
  "scan_keywords [] text_lower merchant_lower = None"
| "scan_keywords (keyword # ks) text_lower merchant_lower =
     (if py_in (str keyword) text_lower \<or> py_in (str keyword) merchant_lower
      then Some keyword
      else scan_keywords ks text_lower merchant_lower)"

text \<open>The loops in sequence, the first one that returns deciding; the fallback after them.\<close>

fun run_rules :: "rule list \<Rightarrow> pystr \<Rightarrow> pystr \<Rightarrow> category_result" where
  "run_rules [] text_lower merchant_lower =
     \<lparr>category = str ''Other'',
      confidence = str ''low'',
      reason = str (''Could not determine category from available information ''
                 @ ''- no matching keywords found'')\<rparr>"
| "run_rules (r # rs) text_lower merchant_lower =
     (case scan_keywords (rule_keywords r) text_lower merchant_lower of
        Some keyword \<Rightarrow> rule_result r keyword merchant_lower
      | None \<Rightarrow> run_rules rs text_lower merchant_lower)"

text \<open>
  \<open>merchant\<close> is \<open>None\<close> or a string in the source (\<open>(merchant or "").lower()\<close>).
\<close>

definition categorize_expense :: "pystr \<Rightarrow> pystr option \<Rightarrow> category_result" where
  "categorize_expense text merchant =
     (let text_lower = lower text;
          merchant_lower = lower (case merchant of None \<Rightarrow> [] | Some m \<Rightarrow> m)
      in run_rules rules text_lower merchant_lower)"

text \<open>A keyword occurs in the lowered text or in the lowered merchant.\<close>

definition keyword_found :: "string \<Rightarrow> pystr \<Rightarrow> pystr option \<Rightarrow> bool" where
  "keyword_found k text merchant =
     (py_in (str k) (lower text)
      \<or> py_in (str k) (lower (case merchant of None \<Rightarrow> [] | Some m \<Rightarrow> m)))"

section \<open>Character classes of \<open>re\<close>\<close>

text \<open>
  \<open>\\d\<close> in a \<open>str\<close> pattern is any character of Unicode category Nd, and \<open>float\<close> and
  \<open>int\<close> read each of them as its digit. The category is made of runs of ten code points,
  zero to nine; \<open>nd_starts\<close> lists where the runs begin (Unicode 15.0, the fifty mathematical
  digits from U+1D7CE as five runs).
\<close>

definition nd_starts :: "nat list" where
  "nd_starts =
    [0x0660, 0x06F0, 0x07C0, 0x0966, 0x09E6, 0x0A66, 0x0AE6, 0x0B66, 0x0BE6, 0x0C66, 0x0CE6,
     0x0D66, 0x0DE6, 0x0E50, 0x0ED0, 0x0F20, 0x1040, 0x1090, 0x17E0, 0x1810, 0x1946, 0x19D0,
     0x1A80, 0x1A90, 0x1B50, 0x1BB0, 0x1C40, 0x1C50, 0xA620, 0xA8D0, 0xA900, 0xA9D0, 0xA9F0,
     0xAA50, 0xABF0, 0xFF10, 0x104A0, 0x10D30, 0x11066, 0x110F0, 0x11136, 0x111D0, 0x112F0,
     0x11450, 0x114D0, 0x11650, 0x116C0, 0x11730, 0x118E0, 0x11950, 0x11C50, 0x11D50,
     0x11DA0, 0x11F50, 0x16A60, 0x16AC0, 0x16B50, 0x1D7CE, 0x1D7D8, 0x1D7E2, 0x1D7EC,
     0x1D7F6, 0x1E140, 0x1E2F0, 0x1E4F0, 0x1E950, 0x1FBF0]"

definition digit_val :: "pychar \<Rightarrow> nat option" where
  "digit_val c =
     (if c < 0x0660 then (if 48 \<le> c \<and> c \<le> 57 then Some (c - 48) else None)
      else (case filter (\<lambda>b. b \<le> c \<and> c < b + 10) nd_starts of
              [] \<Rightarrow> None
            | b # _ \<Rightarrow> Some (c - b)))"

definition is_digit :: "pychar \<Rightarrow> bool" where
  "is_digit c = (digit_val c \<noteq> None)"

text \<open>\<open>\\s\<close> in a \<open>str\<close> pattern: the characters \<open>str.isspace\<close> accepts.\<close>

definition is_space :: "pychar \<Rightarrow> bool" where
  "is_space c =
     ((9 \<le> c \<and> c \<le> 13) \<or> (28 \<le> c \<and> c \<le> 32) \<or> c = 0x85 \<or> c = 0xA0 \<or> c = 0x1680
      \<or> (0x2000 \<le> c \<and> c \<le> 0x200A) \<or> c = 0x2028 \<or> c = 0x2029 \<or> c = 0x202F
      \<or> c = 0x205F \<or> c = 0x3000)"

text \<open>
  A literal letter under \<open>re.IGNORECASE\<close>: the letter in either case and, as the
  documentation of \<open>re\<close> lists them, U+0130 and U+0131 for \<open>i\<close>, U+017F for \<open>s\<close> and the
  Kelvin sign U+212A for \<open>k\<close>. A literal that is not a letter matches itself only. The
  argument is the literal as the pattern writes it.
\<close>

definition ci :: "char \<Rightarrow> pychar \<Rightarrow> bool" where
  "ci l c =
     (let x = (of_char l :: nat);
          lo = (if 65 \<le> x \<and> x \<le> 90 then x + 32 else x)
      in if 97 \<le> lo \<and> lo \<le> 122
         then c = lo \<or> c + 32 = lo
              \<or> (lo = 105 \<and> (c = 0x130 \<or> c = 0x131))
              \<or> (lo = 115 \<and> c = 0x17F)
              \<or> (lo = 107 \<and> c = 0x212A)
         else c = x)"

definition lit :: "char \<Rightarrow> pychar \<Rightarrow> bool" where
  "lit l c = (c = of_char l)"

section \<open>A backtracking matcher\<close>

text \<open>
  The patterns of the source use literals and classes, sequence, alternation, greedy counted
  and unbounded repetition, and capturing groups. \<open>Rep lo hi r\<close> is \<open>r{lo,hi}\<close>, with
  \<open>hi = None\<close> for no upper bound: \<open>r*\<close> is \<open>Rep 0 None r\<close> and \<open>r?\<close> is
  \<open>Rep 0 (Some 1) r\<close>. \<open>Group i r\<close> is the \<open>i\<close>-th capturing group, \<open>Eps\<close> the empty
  pattern and \<open>Eol\<close> the anchor \<^verbatim>\<open>$\<close>, which holds at the end of the string and before
  a newline that ends it.
\<close>

datatype regex =
    Sym "pychar \<Rightarrow> bool"
  | Cat regex regex
  | Alt regex regex
  | Rep nat "nat option" regex
  | Group nat regex
  | Eps
  | Eol

text \<open>
  A state of the matcher is the text still to be read and the groups captured so far, the
  latest first. \<open>ms r st\<close> lists the states in which a match of \<open>r\<close> begun in \<open>st\<close> can end,
  in the order in which the backtracking engine of \<open>re\<close> tries them: the first alternative
  before the second, one more repetition before stopping. The match \<open>re\<close> reports is the
  head of the list.
\<close>

type_synonym captures = "(nat \<times> pystr) list"
type_synonym mstate = "pystr \<times> captures"

text \<open>
  \<open>rep f lo n\<close>: at most \<open>n\<close> further rounds of \<open>f\<close>, of which \<open>lo\<close> are still required.
\<close>

fun rep :: "(mstate \<Rightarrow> mstate list) \<Rightarrow> nat \<Rightarrow> nat \<Rightarrow> mstate \<Rightarrow> mstate list" where
  "rep f lo 0 st = (if lo = 0 then [st] else [])"
| "rep f lo (Suc n) st =
     concat (map (rep f (lo - 1) n) (f st)) @ (if lo = 0 then [st] else [])"

text \<open>
  An unbounded repetition is bounded by the length of the text left: every repeated
  expression of the patterns below reads at least one character in each round.
\<close>

primrec ms :: "regex \<Rightarrow> mstate \<Rightarrow> mstate list" where
  "ms (Sym p) st =
     (case fst st of [] \<Rightarrow> [] | c # cs \<Rightarrow> if p c then [(cs, snd st)] else [])"
| "ms (Cat a b) st = concat (map (ms b) (ms a st))"
| "ms (Alt a b) st = ms a st @ ms b st"
| "ms (Rep lo hi r) st =
     rep (ms r) lo (case hi of None \<Rightarrow> length (fst st) | Some h \<Rightarrow> h) st"
| "ms (Group i r) st =
     map (\<lambda>st'. (fst st', (i, take (length (fst st) - length (fst st')) (fst st)) # snd st'))
         (ms r st)"
| "ms Eps st = [st]"
| "ms Eol st = (if fst st = [] \<or> fst st = [10] then [st] else [])"

text \<open>
  A match object: where the match starts, the text left after it, and its groups.
  \<open>re.search\<close> finds the first position, from the left, at which the pattern matches, and
  the first match there. \<open>group m i\<close> is \<open>m.group(i)\<close>, \<open>None\<close> for a group that took no
  part in the match.
\<close>

record rmatch =
  m_start :: nat
  m_rest :: pystr
  m_groups :: captures

fun search_from :: "regex \<Rightarrow> nat \<Rightarrow> pystr \<Rightarrow> rmatch option" where
  "search_from r i [] =
     (case ms r ([], []) of
        [] \<Rightarrow> None
      | st # _ \<Rightarrow> Some \<lparr>m_start = i, m_rest = fst st, m_groups = snd st\<rparr>)"
| "search_from r i (c # cs) =
     (case ms r (c # cs, []) of
        [] \<Rightarrow> search_from r (Suc i) cs
      | st # _ \<Rightarrow> Some \<lparr>m_start = i, m_rest = fst st, m_groups = snd st\<rparr>)"

definition re_search :: "regex \<Rightarrow> pystr \<Rightarrow> rmatch option" where
  "re_search r s = search_from r 0 s"

definition group :: "rmatch \<Rightarrow> nat \<Rightarrow> pystr option" where
  "group m i = map_of (m_groups m) i"

text \<open>
  \<open>re.findall\<close> for a pattern of one group: group 1 of the matches from left to right,
  each search starting where the last match ended (one character further after a match that
  read nothing).
\<close>

function findall :: "regex \<Rightarrow> pystr \<Rightarrow> pystr option list" where
  "findall r s =
     (case ms r (s, []) of
        [] \<Rightarrow> (case s of [] \<Rightarrow> [] | c # cs \<Rightarrow> findall r cs)
      | st # _ \<Rightarrow>
          map_of (snd st) 1 # (if length (fst st) < length s then findall r (fst st)
                    else (case s of [] \<Rightarrow> [] | c # cs \<Rightarrow> findall r cs)))"
  by pat_completeness auto
termination
  by (relation "measure (\<lambda>(r, s). length s)") auto

declare findall.simps [simp del]

text \<open>Shorthands for writing the patterns down.\<close>

definition star :: "regex \<Rightarrow> regex" where
  "star r = Rep 0 None r"

definition opt :: "regex \<Rightarrow> regex" where
  "opt r = Rep 0 (Some 1) r"

fun seq :: "regex list \<Rightarrow> regex" where
  "seq [] = Eps"
| "seq [r] = r"
| "seq (r # rs) = Cat r (seq rs)"

fun alts :: "regex list \<Rightarrow> regex" where
  "alts [] = Eps"
| "alts [r] = r"
| "alts (r # rs) = Alt r (alts rs)"

definition word :: "string \<Rightarrow> regex" where
  "word w = seq (map (\<lambda>l. Sym (lit l)) w)"

definition word_ci :: "string \<Rightarrow> regex" where
  "word_ci w = seq (map (\<lambda>l. Sym (ci l)) w)"

section \<open>Amounts\<close>

text \<open>
  \<open>float\<close> on the strings the amount patterns capture, once the commas are removed: digits,
  with or without a point and more digits, and at least one digit in all. Python's \<open>float\<close>
  also reads signs, exponents, underscores, surrounding blanks, \<open>inf\<close> and \<open>nan\<close>; no caller
  below can pass one of those, and the model raises on them (\<open>None\<close>). The value is the
  exact decimal, where Python keeps the double nearest to it: the rounding is monotone and
  maps no decimal with two fraction digits but zero itself to zero, so that which amount is
  the largest and whether an amount is zero are the same for both.
\<close>

definition nat_of_digits :: "pystr \<Rightarrow> nat" where
  "nat_of_digits ds = foldl (\<lambda>n d. 10 * n + (case digit_val d of None \<Rightarrow> 0 | Some v \<Rightarrow> v)) 0 ds"

definition py_float :: "pystr \<Rightarrow> rat option" where
  "py_float s =
     (let ip = takeWhile is_digit s; rest = dropWhile is_digit s
      in case rest of
           [] \<Rightarrow> if ip = [] then None else Some (of_nat (nat_of_digits ip))
         | c # fp \<Rightarrow>
             if c = 46 \<and> list_all is_digit fp \<and> (ip \<noteq> [] \<or> fp \<noteq> [])
             then Some (of_nat (nat_of_digits ip) + of_nat (nat_of_digits fp) / 10 ^ length fp)
             else None)"

text \<open>\<open>s.replace(',', '')\<close>\<close>

definition remove_commas :: "pystr \<Rightarrow> pystr" where
  "remove_commas s = filter (\<lambda>c. c \<noteq> 44) s"

text \<open>
  The number of the three amount patterns:
  \<^verbatim>\<open>(\d{1,3}(?:,\d{3})*(?:\.\d{2})?)\<close>
\<close>

definition number :: regex where
  "number =
     Group 1 (seq [Rep 1 (Some 3) (Sym is_digit),
                   star (Cat (Sym (lit CHR '','')) (Rep 3 (Some 3) (Sym is_digit))),
                   opt (Cat (Sym (lit CHR ''.'')) (Rep 2 (Some 2) (Sym is_digit)))])"

text \<open>
  The rupee sign U+20B9, written \<open>R\<close> in the patterns quoted here, and the class
  \<^verbatim>\<open>[:\s]\<close>.
\<close>

definition rupee :: "pychar \<Rightarrow> bool" where
  "rupee c = (c = 0x20B9)"

definition colon_or_space :: "pychar \<Rightarrow> bool" where
  "colon_or_space c = (c = 58 \<or> is_space c)"

text \<open>
  \<^verbatim>\<open>[:\s]*R?\s*(\d{1,3}(?:,\d{3})*(?:\.\d{2})?)\<close> after the label of a total line.
\<close>

definition labelled :: "regex \<Rightarrow> regex" where
  "labelled l = seq [l, star (Sym colon_or_space), opt (Sym rupee), star (Sym is_space), number]"

text \<open>The two patterns of \<open>total_patterns\<close>, compiled with \<open>re.IGNORECASE\<close>.\<close>

definition total_patterns :: "regex list" where
  "total_patterns =
     [labelled (alts (map word_ci
        [''grand total'', ''grandtotal'', ''net amount'', ''amount payable'', ''amount to pay'',
         ''total amount'', ''bill total'', ''grand total''])),
      labelled (word_ci ''total'')]"

text \<open>The pattern of the fallback: \<^verbatim>\<open>R?\s*(\d{1,3}(?:,\d{3})*(?:\.\d{2})?)\<close>\<close>

definition amount_pattern :: regex where
  "amount_pattern = seq [opt (Sym rupee), star (Sym is_space), number]"

text \<open>
  \<open>float(g.replace(',', ''))\<close> under \<open>try\<close>, for group 1 of a match or a string of
  \<open>findall\<close>: \<open>None\<close> is the exception.
\<close>

definition amount_of :: "pystr option \<Rightarrow> rat option" where
  "amount_of g = (case g of None \<Rightarrow> None | Some a \<Rightarrow> py_float (remove_commas a))"

text \<open>The loop over \<open>total_patterns\<close>: the first pattern that matches and parses returns.\<close>

fun total_amount :: "regex list \<Rightarrow> pystr \<Rightarrow> rat option" where
  "total_amount [] text = None"
| "total_amount (pat # pats) text =
     (case re_search pat text of
        None \<Rightarrow> total_amount pats text
      | Some m \<Rightarrow>
          (case amount_of (group m 1) of
             Some v \<Rightarrow> Some v
           | None \<Rightarrow> total_amount pats text))"

text \<open>\<open>max\<close> of a non-empty list.\<close>

definition py_max :: "rat list \<Rightarrow> rat" where
  "py_max xs = foldl max (hd xs) (tl xs)"

text \<open>The loop of the fallback: the strings that parse, in order.\<close>

fun parse_amounts :: "pystr option list \<Rightarrow> rat list" where
  "parse_amounts [] = []"
| "parse_amounts (a # amounts) =
     (case amount_of a of
        Some v \<Rightarrow> v # parse_amounts amounts
      | None \<Rightarrow> parse_amounts amounts)"

definition extract_amount :: "pystr \<Rightarrow> rat option" where
  "extract_amount text =
     (case total_amount total_patterns text of
        Some v \<Rightarrow> Some v
      | None \<Rightarrow>
          (let amounts = findall amount_pattern text;
               numeric = parse_amounts amounts
           in if numeric \<noteq> [] then Some (py_max numeric) else None))"

section \<open>The strings a pattern reads\<close>

text \<open>
  The set of strings a pattern can read, in the usual sense of regular expressions. It is
  the yardstick for the matcher: whatever \<open>ms\<close> reads between two states is in this set.
\<close>

primrec lang :: "regex \<Rightarrow> pystr set" where
  "lang (Sym p) = {[c] | c. p c}"
| "lang (Cat a b) = {u @ v | u v. u \<in> lang a \<and> v \<in> lang b}"
| "lang (Alt a b) = lang a \<union> lang b"
| "lang (Rep lo hi r) =
     {concat ws | ws. set ws \<subseteq> lang r \<and> lo \<le> length ws
                      \<and> (case hi of None \<Rightarrow> True | Some h \<Rightarrow> length ws \<le> h)}"
| "lang (Group i r) = lang r"
| "lang Eps = {[]}"
| "lang Eol = {[]}"

text \<open>
  The inside of the group of \<open>number\<close>: the leading digits, the groups of thousands, the
  cents.
\<close>

definition number_body :: regex where
  "number_body =
     Cat (Rep 1 (Some 3) (Sym is_digit))
         (Cat (star (Cat (Sym (lit CHR '','')) (Rep 3 (Some 3) (Sym is_digit))))
              (opt (Cat (Sym (lit CHR ''.'')) (Rep 2 (Some 2) (Sym is_digit)))))"

text \<open>The text contains one of the ten ASCII digits.\<close>

fun has_ascii_digit :: "pystr \<Rightarrow> bool" where
  "has_ascii_digit [] = False"
| "has_ascii_digit (c # cs) = ((48 \<le> c \<and> c \<le> 57) \<or> has_ascii_digit cs)"

section \<open>Dates\<close>

text \<open>A \<open>datetime\<close>, of which only the date is ever set or printed here.\<close>

record date =
  year :: nat
  month :: nat
  day :: nat

definition leap_year :: "nat \<Rightarrow> bool" where
  "leap_year y = (y mod 4 = 0 \<and> (y mod 100 \<noteq> 0 \<or> y mod 400 = 0))"

definition days_in_month :: "nat \<Rightarrow> nat \<Rightarrow> nat" where
  "days_in_month y m =
     (if m = 2 then (if leap_year y then 29 else 28)
      else if m = 4 \<or> m = 6 \<or> m = 9 \<or> m = 11 then 30
      else 31)"

text \<open>
  The constructor of \<open>date\<close> raises \<open>ValueError\<close> outside years 1 to 9999, months 1 to 12
  and the days of the month.
\<close>

definition valid_date :: "nat \<Rightarrow> nat \<Rightarrow> nat \<Rightarrow> bool" where
  "valid_date y m d =
     (1 \<le> y \<and> y \<le> 9999 \<and> 1 \<le> m \<and> m \<le> 12 \<and> 1 \<le> d \<and> d \<le> days_in_month y m)"

text \<open>
  \<open>datetime.strptime\<close> turns the format into a regular expression, one group for each
  directive, and matches it at the start of the string. The groups of the four directives
  used, as \<open>_strptime\<close> writes them:
  \<^verbatim>\<open>%d  (?P<d>3[0-1]|[1-2]\d|0[1-9]|[1-9]| [1-9])\<close>,
  \<^verbatim>\<open>%m  (?P<m>1[0-2]|0[1-9]|[1-9])\<close>,
  \<^verbatim>\<open>%y  (?P<y>\d\d)\<close> and
  \<^verbatim>\<open>%Y  (?P<Y>\d\d\d\d)\<close>.
  The groups are numbered 1 for the day, 2 for the month, 3 for a two-digit year and 4 for a
  four-digit year.
\<close>

definition between :: "char \<Rightarrow> char \<Rightarrow> pychar \<Rightarrow> bool" where
  "between a b c = (of_char a \<le> c \<and> c \<le> of_char b)"

definition directive_d :: regex where
  "directive_d =
     Group 1 (alts [Cat (Sym (lit CHR ''3'')) (Sym (between CHR ''0'' CHR ''1'')),
                    Cat (Sym (between CHR ''1'' CHR ''2'')) (Sym is_digit),
                    Cat (Sym (lit CHR ''0'')) (Sym (between CHR ''1'' CHR ''9'')),
                    Sym (between CHR ''1'' CHR ''9''),
                    Cat (Sym (lit CHR '' '')) (Sym (between CHR ''1'' CHR ''9''))])"

definition directive_m :: regex where
  "directive_m =
     Group 2 (alts [Cat (Sym (lit CHR ''1'')) (Sym (between CHR ''0'' CHR ''2'')),
                    Cat (Sym (lit CHR ''0'')) (Sym (between CHR ''1'' CHR ''9'')),
                    Sym (between CHR ''1'' CHR ''9'')])"

definition directive_y :: regex where
  "directive_y = Group 3 (Cat (Sym is_digit) (Sym is_digit))"

definition directive_Y :: regex where
  "directive_Y = Group 4 (seq [Sym is_digit, Sym is_digit, Sym is_digit, Sym is_digit])"

text \<open>The three formats of \<open>extract_date\<close>.\<close>

datatype format = DMY_slash | YMD_dash | DMy_slash

fun format_regex :: "format \<Rightarrow> regex" where
  "format_regex DMY_slash =
     seq [directive_d, Sym (lit CHR ''/''), directive_m, Sym (lit CHR ''/''), directive_Y]"
| "format_regex YMD_dash =
     seq [directive_Y, Sym (lit CHR ''-''), directive_m, Sym (lit CHR ''-''), directive_d]"
| "format_regex DMy_slash =
     seq [directive_d, Sym (lit CHR ''/''), directive_m, Sym (lit CHR ''/''), directive_y]"

text \<open>
  The year of the match: \<open>%Y\<close> as it stands, \<open>%y\<close> in 2000 to 2068 for 0 to 68 and in
  1969 to 1999 for 69 to 99.
\<close>

definition year_of :: "captures \<Rightarrow> nat option" where
  "year_of m =
     (case map_of m 4 of
        Some g \<Rightarrow> Some (nat_of_digits g)
      | None \<Rightarrow>
          (case map_of m 3 of
             Some g \<Rightarrow> (let y = nat_of_digits g in Some (if y \<le> 68 then y + 2000 else y + 1900))
           | None \<Rightarrow> None))"

text \<open>
  \<open>strptime\<close>: \<open>None\<close> is \<open>ValueError\<close>, raised when the format does not match at the
  start of the string, when the match leaves part of the string unread, and when the day,
  month and year are not a date.
\<close>

definition strptime :: "pystr \<Rightarrow> format \<Rightarrow> date option" where
  "strptime s f =
     (case ms (format_regex f) (s, []) of
        [] \<Rightarrow> None
      | st # _ \<Rightarrow>
          if fst st \<noteq> [] then None
          else (case (year_of (snd st), map_of (snd st) 2, map_of (snd st) 1) of
                  (Some y, Some gm, Some gd) \<Rightarrow>
                    (let m = nat_of_digits gm; d = nat_of_digits gd
                     in if valid_date y m d then Some \<lparr>year = y, month = m, day = d\<rparr>
                        else None)
                | _ \<Rightarrow> None))"

text \<open>
  \<open>strftime("%Y-%m-%d")\<close>. The month and the day are printed with two digits. The year is
  printed with four: below 1000, which only a four-digit group with leading zeros can give,
  the C library decides whether \<open>%Y\<close> pads, and the model pads.
\<close>

definition digit_char :: "nat \<Rightarrow> pychar" where
  "digit_char n = 48 + n mod 10"

definition strftime :: "date \<Rightarrow> pystr" where
  "strftime d =
     [digit_char (year d div 1000), digit_char (year d div 100), digit_char (year d div 10),
      digit_char (year d), 45,
      digit_char (month d div 10), digit_char (month d), 45,
      digit_char (day d div 10), digit_char (day d)]"

text \<open>
  The three patterns of \<open>date_patterns\<close>, compiled with \<open>re.IGNORECASE\<close>:
  \<^verbatim>\<open>(\d{1,2})[-/](\d{1,2})[-/](\d{2,4})\<close>,
  \<^verbatim>\<open>(\d{1,2})\s(?:Jan|Feb|Mar|Apr|May|Jun|Jul|Aug|Sep|Oct|Nov|Dec)[a-z]*[\s,]*(\d{2,4})\<close>
  and \<^verbatim>\<open>(\d{4})[-/](\d{1,2})[-/](\d{1,2})\<close>.
  Under \<open>re.IGNORECASE\<close> the class \<^verbatim>\<open>[a-z]\<close> holds the letters of both cases and
  the four characters U+0130, U+0131, U+017F and U+212A.
\<close>

definition dash_or_slash :: "pychar \<Rightarrow> bool" where
  "dash_or_slash c = (c = 45 \<or> c = 47)"

definition letter_ci :: "pychar \<Rightarrow> bool" where
  "letter_ci c =
     ((97 \<le> c \<and> c \<le> 122) \<or> (65 \<le> c \<and> c \<le> 90)
      \<or> c = 0x130 \<or> c = 0x131 \<or> c = 0x17F \<or> c = 0x212A)"

definition space_or_comma :: "pychar \<Rightarrow> bool" where
  "space_or_comma c = (is_space c \<or> c = 44)"

definition date_patterns :: "regex list" where
  "date_patterns =
     [seq [Group 1 (Rep 1 (Some 2) (Sym is_digit)), Sym dash_or_slash,
           Group 2 (Rep 1 (Some 2) (Sym is_digit)), Sym dash_or_slash,
           Group 3 (Rep 2 (Some 4) (Sym is_digit))],
      seq [Group 1 (Rep 1 (Some 2) (Sym is_digit)), Sym is_space,
           alts (map word_ci [''Jan'', ''Feb'', ''Mar'', ''Apr'', ''May'', ''Jun'', ''Jul'',
                              ''Aug'', ''Sep'', ''Oct'', ''Nov'', ''Dec'']),
           star (Sym letter_ci), star (Sym space_or_comma),
           Group 2 (Rep 2 (Some 4) (Sym is_digit))],
      seq [Group 1 (Rep 4 (Some 4) (Sym is_digit)), Sym dash_or_slash,
           Group 2 (Rep 1 (Some 2) (Sym is_digit)), Sym dash_or_slash,
           Group 3 (Rep 1 (Some 2) (Sym is_digit))]]"

text \<open>\<open>len(match.groups())\<close>: the number of groups of the pattern.\<close>

primrec ngroups :: "regex \<Rightarrow> nat" where
  "ngroups (Sym p) = 0"
| "ngroups (Cat a b) = ngroups a + ngroups b"
| "ngroups (Alt a b) = ngroups a + ngroups b"
| "ngroups (Rep lo hi r) = ngroups r"
| "ngroups (Group i r) = Suc (ngroups r)"
| "ngroups Eps = 0"

text \<open>
  The body of the \<open>try\<close> for a match of three groups: the date parsed, or \<open>None\<close> for the
  \<open>ValueError\<close> that makes the loop go on. The inner \<open>try\<close> falls back to the second
  format on any exception of the first.
\<close>

definition parse_match :: "pystr \<Rightarrow> pystr \<Rightarrow> pystr \<Rightarrow> date option" where
  "parse_match g1 g2 g3 =
     (if length g3 = 4 then strptime (g1 @ str ''/'' @ g2 @ str ''/'' @ g3) DMY_slash
      else (case strptime (g1 @ str ''-'' @ g2 @ str ''-'' @ g3) YMD_dash of
              Some d \<Rightarrow> Some d
            | None \<Rightarrow> strptime (g1 @ str ''/'' @ g2 @ str ''/'' @ g3) DMy_slash))"

text \<open>
  The loop over the patterns. A match of a pattern that has not three groups does nothing,
  and the loop goes on to the next pattern. The groups of these patterns take part in every
  match, so that the last case of the groups does not arise.
\<close>

fun date_loop :: "regex list \<Rightarrow> pystr \<Rightarrow> pystr option" where
  "date_loop [] text = None"
| "date_loop (pattern # patterns) text =
     (case re_search pattern text of
        None \<Rightarrow> date_loop patterns text
      | Some m \<Rightarrow>
          if ngroups pattern = 3
          then (case (group m 1, group m 2, group m 3) of
                  (Some g1, Some g2, Some g3) \<Rightarrow>
                    (case parse_match g1 g2 g3 of
                       Some d \<Rightarrow> Some (strftime d)
                     | None \<Rightarrow> date_loop patterns text)
                | _ \<Rightarrow> date_loop patterns text)
          else date_loop patterns text)"

definition extract_date :: "pystr \<Rightarrow> pystr option" where
  "extract_date text = date_loop date_patterns text"

section \<open>Merchant, line items and description\<close>

text \<open>\<open>s.split('\\n')\<close> and \<open>s.strip()\<close>.\<close>

fun split_lines :: "pystr \<Rightarrow> pystr list" where
  "split_lines [] = [[]]"
| "split_lines (c # cs) =
     (if c = 10 then [] # split_lines cs
      else (case split_lines cs of
              [] \<Rightarrow> [[c]]
            | l # ls \<Rightarrow> (c # l) # ls))"

definition strip :: "pystr \<Rightarrow> pystr" where
  "strip s = rev (dropWhile is_space (rev (dropWhile is_space s)))"

definition ascii_letter :: "pychar \<Rightarrow> bool" where
  "ascii_letter c = ((65 \<le> c \<and> c \<le> 90) \<or> (97 \<le> c \<and> c \<le> 122))"

definition admin_words :: "string list" where
  "admin_words = [''bill'', ''invoice'', ''receipt'', ''date'', ''time'', ''gst'', ''tax'']"

fun merchant_loop :: "pystr list \<Rightarrow> pystr option" where
  "merchant_loop [] = None"
| "merchant_loop (line # lines) =
     (if strip line \<noteq> [] \<and> \<not> (\<exists>w\<in>set admin_words. py_in (str w) (lower line))
      then (if re_search (Sym ascii_letter) line \<noteq> None then Some (strip line)
            else merchant_loop lines)
      else merchant_loop lines)"

definition extract_merchant :: "pystr \<Rightarrow> pystr option" where
  "extract_merchant text = merchant_loop (take 5 (split_lines text))"

text \<open>A line item, the dictionary with the keys \<open>name\<close>, \<open>amount\<close> and \<open>quantity\<close>.\<close>

record line_item =
  item_name :: pystr
  item_amount :: rat
  item_quantity :: nat

text \<open>
  The patterns of \<open>extract_line_items\<close>: the summary words, compiled with
  \<open>re.IGNORECASE\<close>,
  \<^verbatim>\<open>(total|subtotal|gst|tax|discount|amount payable|grand total|net amount)\<close>,
  the amount at the end of the line \<^verbatim>\<open>([\d,]+(?:\.\d{2}))\s*$\<close>,
  the amount after a rupee sign \<^verbatim>\<open>R\s*([\d,]+(?:\.\d{2}))\<close>
  and the quantity \<^verbatim>\<open>(?:(\d+)\s*[xX]|[xX]\s*(\d+))\<close>.
\<close>

definition digit_or_comma :: "pychar \<Rightarrow> bool" where
  "digit_or_comma c = (is_digit c \<or> c = 44)"

definition letter_x :: "pychar \<Rightarrow> bool" where
  "letter_x c = (c = 120 \<or> c = 88)"

definition summary_pattern :: regex where
  "summary_pattern =
     Group 1 (alts (map word_ci
        [''total'', ''subtotal'', ''gst'', ''tax'', ''discount'', ''amount payable'',
         ''grand total'', ''net amount'']))"

definition item_number :: regex where
  "item_number =
     Group 1 (Cat (Rep 1 None (Sym digit_or_comma))
                  (Cat (Sym (lit CHR ''.'')) (Rep 2 (Some 2) (Sym is_digit))))"

definition trailing_amount :: regex where
  "trailing_amount = seq [item_number, star (Sym is_space), Eol]"

definition rupee_amount :: regex where
  "rupee_amount = seq [Sym rupee, star (Sym is_space), item_number]"

definition quantity_pattern :: regex where
  "quantity_pattern =
     Alt (seq [Group 1 (Rep 1 None (Sym is_digit)), star (Sym is_space), Sym letter_x])
         (seq [Sym letter_x, star (Sym is_space), Group 2 (Rep 1 None (Sym is_digit))])"

text \<open>
  \<open>re.sub(r, '', s)\<close>: the string without the matches of \<open>r\<close>, found from left to right
  as \<open>findall\<close> finds them.
\<close>

function remove_matches :: "regex \<Rightarrow> pystr \<Rightarrow> pystr" where
  "remove_matches r s =
     (case ms r (s, []) of
        [] \<Rightarrow> (case s of [] \<Rightarrow> [] | c # cs \<Rightarrow> c # remove_matches r cs)
      | st # _ \<Rightarrow>
          (if length (fst st) < length s then remove_matches r (fst st)
           else (case s of [] \<Rightarrow> [] | c # cs \<Rightarrow> c # remove_matches r cs)))"
  by pat_completeness auto
termination
  by (relation "measure (\<lambda>(r, s). length s)") auto

declare remove_matches.simps [simp del]

text \<open>
  The quantity of a name: \<open>int\<close> of the first group of the match that is not empty, and 1
  when \<open>int\<close> raises. (\<open>int\<close> is modelled without the limit on the number of digits that
  recent versions of Python put on it.)
\<close>

definition quantity_of :: "rmatch \<Rightarrow> nat" where
  "quantity_of qmatch =
     (case (case group qmatch 1 of
              None \<Rightarrow> group qmatch 2
            | Some g \<Rightarrow> if g \<noteq> [] then Some g else group qmatch 2) of
        None \<Rightarrow> 1
      | Some q \<Rightarrow> nat_of_digits q)"

text \<open>The search for the amount of a line: at the end of the line, else after a rupee sign.\<close>

definition find_item_amount :: "pystr \<Rightarrow> rmatch option" where
  "find_item_amount line =
     (case re_search trailing_amount line of
        Some m \<Rightarrow> Some m
      | None \<Rightarrow> re_search rupee_amount line)"

text \<open>The item of a line whose amount is found at \<open>m\<close> and parses to \<open>a\<close>, if its name is not empty.\<close>

definition item_of :: "pystr \<Rightarrow> rmatch \<Rightarrow> rat \<Rightarrow> line_item list" where
  "item_of line m a =
     (let name_part = strip (take (m_start m) line);
          qmatch = re_search quantity_pattern name_part;
          qty = (case qmatch of None \<Rightarrow> 1 | Some q \<Rightarrow> quantity_of q);
          name_part = (case qmatch of
                         None \<Rightarrow> name_part
                       | Some q \<Rightarrow> strip (remove_matches quantity_pattern name_part))
      in if name_part \<noteq> [] then [\<lparr>item_name = name_part, item_amount = a, item_quantity = qty\<rparr>] else [])"

fun items_loop :: "pystr list \<Rightarrow> line_item list" where
  "items_loop [] = []"
| "items_loop (line # lines) =
     (if re_search summary_pattern line \<noteq> None then items_loop lines
      else (case find_item_amount line of
              None \<Rightarrow> items_loop lines
            | Some m \<Rightarrow>
                (case amount_of (group m 1) of
                   None \<Rightarrow> items_loop lines
                 | Some a \<Rightarrow> item_of line m a @ items_loop lines)))"

definition extract_line_items :: "pystr \<Rightarrow> line_item list" where
  "extract_line_items text = items_loop (split_lines text)"

text \<open>\<open>', '.join(names)\<close>\<close>

fun join_comma :: "pystr list \<Rightarrow> pystr" where
  "join_comma [] = []"
| "join_comma [n] = n"
| "join_comma (n # ns) = n @ str '', '' @ join_comma ns"

definition generate_description :: "pystr \<Rightarrow> line_item list \<Rightarrow> pystr \<Rightarrow> pystr" where
  "generate_description merchant items cat =
     (if merchant \<noteq> [] \<and> items \<noteq> []
      then (if length items = 1 then item_name (hd items) @ str '' from '' @ merchant
            else if length items \<le> 3
            then join_comma (map item_name items) @ str '' from '' @ merchant
            else str ''Multiple items from '' @ merchant)
      else if merchant \<noteq> [] then str ''Purchase from '' @ merchant
      else if items \<noteq> []
      then (if length items = 1 then item_name (hd items)
            else str ''Multiple items - '' @ lower cat)
      else str ''Expense - '' @ lower cat)"

section \<open>The pipeline\<close>

text \<open>
  The values of the dictionaries \<open>process_receipt\<close> returns, and a dictionary as the list of
  its keys and values in the order of the source. \<open>dict_get d k\<close> is \<open>d.get(k)\<close>.
\<close>

datatype pyval = PNone | PBool bool | PFloat rat | PStr pystr | PItems "line_item list"

type_synonym pydict = "(string \<times> pyval) list"

definition dict_get :: "pydict \<Rightarrow> string \<Rightarrow> pyval" where
  "dict_get d k = (case map_of d k of None \<Rightarrow> PNone | Some v \<Rightarrow> v)"

text \<open>
  What the two stages before the extraction give, which are calls into OpenCV and
  Tesseract: \<open>preprocess_image\<close> raises \<open>ValueError\<close> with a message (it wraps every
  exception into one, and so does \<open>validate_image\<close> before it), \<open>extract_text\<close> raises
  \<open>Exception\<close> with a message, or the text is there.
\<close>

datatype stage_outcome = Preprocess_failed pystr | Ocr_failed pystr | Ocr_text pystr

definition opt_str :: "pystr option \<Rightarrow> pyval" where
  "opt_str s = (case s of None \<Rightarrow> PNone | Some v \<Rightarrow> PStr v)"

text \<open>\<open>x or y\<close> for a string or \<open>None\<close> on the left.\<close>

definition str_or :: "pystr option \<Rightarrow> pystr \<Rightarrow> pystr" where
  "str_or x y = (case x of None \<Rightarrow> y | Some v \<Rightarrow> if v \<noteq> [] then v else y)"

text \<open>
  \<open>not amount\<close>: the amount is \<open>None\<close> or zero.
\<close>

definition falsy :: "rat option \<Rightarrow> bool" where
  "falsy a = (case a of None \<Rightarrow> True | Some v \<Rightarrow> v = 0)"

text \<open>
  \<open>text[:500] + "..." if len(text) > 500 else text\<close>
\<close>

definition truncated :: "pystr \<Rightarrow> pystr" where
  "truncated text = (if length text > 500 then take 500 text @ str ''...'' else text)"

definition missing_amount :: "pystr \<Rightarrow> pydict" where
  "missing_amount text =
     [(''success'', PBool False),
      (''error'', PStr (str (''Could not find a valid amount in the receipt. ''
          @ ''Please ensure the receipt image is clear and contains readable text.''))),
      (''error_type'', PStr (str ''validation'')),
      (''raw_text'', PStr (truncated text))]"

definition validation_error :: "pystr \<Rightarrow> pydict" where
  "validation_error e =
     [(''success'', PBool False), (''error'', PStr e), (''error_type'', PStr (str ''validation''))]"

definition processing_error :: pydict where
  "processing_error =
     [(''success'', PBool False),
      (''error'', PStr (str (''Failed to process receipt. ''
          @ ''Please ensure the image is clear and contains readable text.''))),
      (''error_type'', PStr (str ''processing''))]"

text \<open>
  \<open>process_receipt\<close>, given the outcome of the two stages and the day of the processing as
  \<open>datetime.now().strftime("%Y-%m-%d")\<close> prints it.
\<close>

definition process_receipt :: "stage_outcome \<Rightarrow> pystr \<Rightarrow> pydict" where
  "process_receipt outcome today =
     (case outcome of
        Preprocess_failed e \<Rightarrow> validation_error e
      | Ocr_failed e \<Rightarrow> processing_error
      | Ocr_text text \<Rightarrow>
          if text = [] then validation_error (str ''No text could be extracted from the image'')
          else
            (let amount = extract_amount text;
                 date = extract_date text;
                 merchant = extract_merchant text;
                 items = extract_line_items text;
                 category_result = categorize_expense text (Some (str_or merchant []));
                 description = generate_description (str_or merchant []) items
                                 (category category_result)
             in if falsy amount then missing_amount text
                else
                  [(''amount'', (case amount of None \<Rightarrow> PNone | Some a \<Rightarrow> PFloat a)),
                   (''date'', PStr (str_or date today)),
                   (''merchant'', opt_str merchant),
                   (''category'', PStr (category category_result)),
                   (''category_confidence'', PStr (confidence category_result)),
                   (''category_reason'', PStr (reason category_result)),
                   (''description'', PStr description),
                   (''items'', PItems items),
                   (''raw_text'', PStr text),
                   (''needs_confirmation'', PBool (confidence category_result = str ''low'')),
                   (''success'', PBool True)]))"

section \<open>Floating-point numbers\<close>

text \<open>
  A Python \<open>float\<close> is an IEEE 754 double. The model keeps the value of a double as a
  rational number and gives each operation as the exact result rounded to the nearest
  number with 53 significant bits, a tie going to the even one. Overflow and subnormal
  numbers are not modelled: the numbers here are pixel counts and their ratios.
\<close>

text \<open>The integer nearest to a rational, the even one of the two when it is half-way.\<close>

definition round_even :: "rat \<Rightarrow> int" where
  "round_even x =
     (let f = \<lfloor>x\<rfloor>; r = x - of_int f
      in if r < 1 / 2 then f
         else if 1 / 2 < r then f + 1
         else if even f then f else f + 1)"

text \<open>\<open>int.bit_length\<close>: the number of binary digits of a natural number.\<close>

fun bit_length :: "nat \<Rightarrow> nat" where
  "bit_length n = (if n = 0 then 0 else Suc (bit_length (n div 2)))"

declare bit_length.simps [simp del]

text \<open>
  The binary exponent of a positive rational: the \<open>e\<close> with
  \<open>2 powi e \<le> x < 2 powi (e + 1)\<close>.
\<close>

definition binade :: "rat \<Rightarrow> int" where
  "binade x =
     (if 1 \<le> x then int (bit_length (nat \<lfloor>x\<rfloor>)) - 1
      else (let b = bit_length (nat \<lfloor>1 / x\<rfloor>)
            in if x * 2 ^ (b - 1) = 1 then 1 - int b else - int b))"

text \<open>Rounding to a double, for a number that is not negative.\<close>

definition fl :: "rat \<Rightarrow> rat" where
  "fl x =
     (if x \<le> 0 then 0
      else of_int (round_even (x * 2 powi (52 - binade x))) * 2 powi (binade x - 52))"

text \<open>
  \<open>a / b\<close> on integers, which Python rounds correctly; \<open>n * x\<close> for an integer and a
  float, where the integer is made a float first; \<open>int(x)\<close> for a float that is not
  negative.
\<close>

definition truediv :: "nat \<Rightarrow> nat \<Rightarrow> rat" where
  "truediv a b = fl (of_nat a / of_nat b)"

definition mul_int_float :: "nat \<Rightarrow> rat \<Rightarrow> rat" where
  "mul_int_float n x = fl (fl (of_nat n) * x)"

definition py_int :: "rat \<Rightarrow> nat" where
  "py_int x = nat \<lfloor>x\<rfloor>"

section \<open>The shape of the preprocessed image\<close>

text \<open>
  \<open>preprocess_image\<close> works on the pixels through OpenCV. The model follows the shape of
  the image and the parameters of the threshold, from the height and the width of the
  decoded image: \<open>cv2.resize\<close> gives an image of the size asked for and fails on a size
  with a zero, and the conversion to grey, the equalization, the filter, the threshold and
  the closing keep the shape. \<open>None\<close> is the \<open>ValueError\<close> the function raises, in which
  it wraps every exception.
\<close>

record prepared =
  out_height :: nat
  out_width :: nat
  block_size :: nat
  threshold_c :: nat

text \<open>\<open>cv2.resize(img, (width, height))\<close>: the shape of the result, height first.\<close>

definition resize :: "nat \<Rightarrow> nat \<Rightarrow> (nat \<times> nat) option" where
  "resize width height = (if width = 0 \<or> height = 0 then None else Some (height, width))"

definition preprocess_image :: "nat \<Rightarrow> nat \<Rightarrow> prepared option" where
  "preprocess_image h w =
     (if h < 100 \<or> w < 100 then None
      else
        (let max_dimension = max h w;
             shape =
               (if max_dimension < 1000
                then (let scale = truediv 1200 max_dimension
                      in resize (py_int (mul_int_float w scale)) (py_int (mul_int_float h scale)))
                else if max_dimension > 4000
                then (let scale = truediv 4000 max_dimension
                      in resize (py_int (mul_int_float w scale)) (py_int (mul_int_float h scale)))
                else Some (h, w))
         in case shape of
              None \<Rightarrow> None
            | Some (height, width) \<Rightarrow>
                Some \<lparr>out_height = height, out_width = width,
                      block_size = max 3 (or (py_int (mul_int_float (min h w) (fl (2 / 100)))) 1),
                      threshold_c = 15\<rparr>))"

text \<open>
  The block size as the specification words it, for an image of the given height and
  width: \<open>max(3, round(min(height, width) * 0.02)) | 1\<close>, with Python's \<open>round\<close>.
\<close>

definition spec_block_size :: "nat \<Rightarrow> nat \<Rightarrow> nat" where
  "spec_block_size height width =
     or (max 3 (nat (round_even (mul_int_float (min height width) (fl (2 / 100)))))) 1"

section \<open>Evaluating the definitions\<close>

lemma str_simps: "str [] = []" "str (c # cs) = of_char c # str cs"
  by (simp_all add: str_def)

lemmas kw_defs = accommodation_keywords_def electricity_keywords_def food_keywords_def
  transport_keywords_def shopping_keywords_def healthcare_keywords_def grocery_keywords_def
  mobile_keywords_def entertainment_keywords_def office_keywords_def utility_keywords_def
  travel_keywords_def education_keywords_def home_keywords_def personal_care_keywords_def
  gifts_keywords_def emi_keywords_def investment_keywords_def

lemmas categorize_defs = categorize_expense_def rules_def kw_defs lower_def lower_char_def
  rule_result_def str_simps

lemma rep_numeral:
  "rep f lo (numeral k) st =
     concat (map (rep f (lo - 1) (pred_numeral k)) (f st)) @ (if lo = 0 then [st] else [])"
  by (simp add: numeral_eq_Suc)

lemmas class_defs = ci_def lit_def between_def is_digit_def digit_val_def is_space_def
  rupee_def colon_or_space_def dash_or_slash_def letter_ci_def space_or_comma_def

lemmas amount_defs = extract_amount_def total_patterns_def amount_pattern_def labelled_def
  number_def word_ci_def star_def opt_def re_search_def group_def amount_of_def py_float_def
  remove_commas_def nat_of_digits_def py_max_def class_defs str_simps
  rep_numeral findall.simps

lemmas date_defs = extract_date_def date_patterns_def word_ci_def star_def opt_def
  re_search_def group_def parse_match_def strptime_def directive_d_def directive_m_def
  directive_y_def directive_Y_def year_of_def nat_of_digits_def valid_date_def
  days_in_month_def leap_year_def strftime_def digit_char_def class_defs str_simps
  rep_numeral

lemmas dict_defs = dict_get_def missing_amount_def validation_error_def processing_error_def
  truncated_def

lemma extract_amount_empty: "extract_amount [] = None"
  by (simp add: amount_defs)

section \<open>Priority of the rules\<close>

text \<open>
  Claim C1. A text that contains both \<open>restaurant\<close> and \<open>hotel\<close> is categorized as
  \<open>Accommodation\<close>: the accommodation loop runs first and returns at \<open>hotel\<close>, before
  the food loop is reached.
\<close>

theorem categorize_hotel_restaurant:
  "py_in (str ''restaurant'') (lower (str ''Hotel Plaza Restaurant''))
   \<and> py_in (str ''hotel'') (lower (str ''Hotel Plaza Restaurant''))
   \<and> category (categorize_expense (str ''Hotel Plaza Restaurant'') None) = str ''Accommodation''"
  by (simp add: categorize_defs)

section \<open>The categorizer is total\<close>

lemma scan_keywords_None:
  "scan_keywords ks tx ml = None \<longleftrightarrow> (\<forall>k\<in>set ks. \<not> (py_in (str k) tx \<or> py_in (str k) ml))"
  by (induction ks) auto

lemma scan_keywords_Some:
  "scan_keywords ks tx ml = Some k \<Longrightarrow> k \<in> set ks \<and> (py_in (str k) tx \<or> py_in (str k) ml)"
  by (induction ks) (auto split: if_splits)

lemma run_rules_fallback:
  "\<forall>r\<in>set rs. \<forall>k\<in>set (rule_keywords r). \<not> (py_in (str k) tx \<or> py_in (str k) ml) \<Longrightarrow>
   run_rules rs tx ml = run_rules [] tx ml"
proof (induction rs)
  case Nil
  show ?case by simp
next
  case (Cons r rs)
  then have "scan_keywords (rule_keywords r) tx ml = None"
    by (simp add: scan_keywords_None)
  with Cons show ?case by simp
qed

lemma run_rules_match:
  "\<exists>r\<in>set rs. \<exists>k\<in>set (rule_keywords r). py_in (str k) tx \<or> py_in (str k) ml \<Longrightarrow>
   \<exists>r\<in>set rs. \<exists>k\<in>set (rule_keywords r).
     (py_in (str k) tx \<or> py_in (str k) ml) \<and> run_rules rs tx ml = rule_result r k ml"
proof (induction rs)
  case Nil
  then show ?case by simp
next
  case (Cons r rs)
  show ?case
  proof (cases "scan_keywords (rule_keywords r) tx ml")
    case None
    then have no: "\<forall>k\<in>set (rule_keywords r). \<not> (py_in (str k) tx \<or> py_in (str k) ml)"
      by (simp add: scan_keywords_None)
    with Cons.prems have "\<exists>r\<in>set rs. \<exists>k\<in>set (rule_keywords r). py_in (str k) tx \<or> py_in (str k) ml"
      by auto
    from Cons.IH [OF this] None show ?thesis by auto
  next
    case (Some k)
    from scan_keywords_Some [OF Some] Some show ?thesis by auto
  qed
qed

text \<open>
  Claim C6. \<open>categorize_expense\<close> returns a result for every text and merchant (no branch
  of it raises). When no keyword of any rule occurs in the lowered text or the lowered
  merchant, the result is category \<open>Other\<close> with confidence \<open>low\<close>. When some keyword
  occurs, the result is that of a rule and one of its keywords that occurs: the rule's
  category, confidence \<open>high\<close>, and a reason that names the keyword and says
  \<open>merchant name\<close> when the keyword is in the lowered merchant and \<open>receipt text\<close>
  otherwise.
\<close>

theorem categorize_expense_total:
  "(if \<exists>r\<in>set rules. \<exists>k\<in>set (rule_keywords r). keyword_found k text merchant
    then \<exists>r\<in>set rules. \<exists>k\<in>set (rule_keywords r).
           keyword_found k text merchant \<and>
           categorize_expense text merchant =
             \<lparr>category = str (rule_category r),
              confidence = str ''high'',
              reason = str (''Found '' @ label r @ '' keyword '' @ [CHR 0x27] @ k @ [CHR 0x27]
                 @ '' in ''
                 @ (if py_in (str k) (lower (case merchant of None \<Rightarrow> [] | Some m \<Rightarrow> m))
                    then ''merchant name'' else ''receipt text''))\<rparr>
    else categorize_expense text merchant =
           \<lparr>category = str ''Other'',
            confidence = str ''low'',
            reason = str (''Could not determine category from available information ''
                 @ ''- no matching keywords found'')\<rparr>)"
proof (cases "\<exists>r\<in>set rules. \<exists>k\<in>set (rule_keywords r). keyword_found k text merchant")
  case True
  then have "\<exists>r\<in>set rules. \<exists>k\<in>set (rule_keywords r).
      py_in (str k) (lower text)
      \<or> py_in (str k) (lower (case merchant of None \<Rightarrow> [] | Some m \<Rightarrow> m))"
    by (simp add: keyword_found_def)
  from run_rules_match [OF this] True show ?thesis
    by (simp add: categorize_expense_def keyword_found_def rule_result_def)
next
  case False
  then have "\<forall>r\<in>set rules. \<forall>k\<in>set (rule_keywords r).
      \<not> (py_in (str k) (lower text)
      \<or> py_in (str k) (lower (case merchant of None \<Rightarrow> [] | Some m \<Rightarrow> m)))"
    by (simp add: keyword_found_def)
  from run_rules_fallback [OF this] False show ?thesis
    by (simp add: categorize_expense_def)
qed

theorem categorize_expense_total_witness:
  "(\<exists>r\<in>set rules. \<exists>k\<in>set (rule_keywords r).
      keyword_found k (str ''Pizza Hut'') (Some (str ''Pizza Hut'')))
   \<and> confidence (categorize_expense (str ''Pizza Hut'') (Some (str ''Pizza Hut''))) = str ''high''
   \<and> \<not> (\<exists>r\<in>set rules. \<exists>k\<in>set (rule_keywords r). keyword_found k (str ''XYZ 12'') None)
   \<and> categorize_expense (str ''XYZ 12'') None =
           \<lparr>category = str ''Other'',
            confidence = str ''low'',
            reason = str (''Could not determine category from available information ''
                 @ ''- no matching keywords found'')\<rparr>"
proof -
  have a: "keyword_found ''pizza'' (str ''Pizza Hut'') (Some (str ''Pizza Hut''))"
    by (simp add: keyword_found_def lower_def lower_char_def str_simps)
  have "\<lparr>rule_keywords = food_keywords, rule_category = ''Food & Dining'', label = ''food''\<rparr> \<in> set rules"
    by (simp add: rules_def)
  moreover have "''pizza'' \<in> set food_keywords"
    by (simp add: food_keywords_def)
  ultimately have h1: "\<exists>r\<in>set rules. \<exists>k\<in>set (rule_keywords r).
      keyword_found k (str ''Pizza Hut'') (Some (str ''Pizza Hut''))"
    using a by force
  have h2: "\<not> (\<exists>r\<in>set rules. \<exists>k\<in>set (rule_keywords r). keyword_found k (str ''XYZ 12'') None)"
    by (simp add: keyword_found_def rules_def kw_defs lower_def lower_char_def str_simps)
  from h1 categorize_expense_total [of "str ''Pizza Hut''" "Some (str ''Pizza Hut'')"]
  have c1: "confidence (categorize_expense (str ''Pizza Hut'') (Some (str ''Pizza Hut''))) = str ''high''"
    by auto
  from h2 categorize_expense_total [of "str ''XYZ 12''" None]
  have c2: "categorize_expense (str ''XYZ 12'') None =
           \<lparr>category = str ''Other'',
            confidence = str ''low'',
            reason = str (''Could not determine category from available information ''
                 @ ''- no matching keywords found'')\<rparr>"
    by simp
  from h1 h2 c1 c2 show ?thesis by blast
qed

section \<open>Dates\<close>

text \<open>
  Claim C3. \<open>extract_date\<close> maps \<open>15-01-2024\<close> to \<open>2024-01-15\<close>. On
  \<open>2024-01-15\<close> the first pattern matches \<open>24-01-15\<close> inside the date, its last group
  has two characters, and the match is read as the 24th of January of the year 15 of this
  century: the result is \<open>2015-01-24\<close>.
\<close>

theorem extract_date_not_round_trip:
  "extract_date (str ''15-01-2024'') = Some (str ''2024-01-15'')
   \<and> extract_date (str ''2024-01-15'') = Some (str ''2015-01-24'')"
  by (simp add: date_defs)

text \<open>
  Claim C4. The pattern of a day, a month name and a year has two groups, and
  \<open>extract_date\<close> parses a match only when the pattern has three: on \<open>15 Jan 2024\<close>,
  which only this pattern matches, the result is \<open>None\<close>.
\<close>

theorem extract_date_month_name:
  "ngroups (date_patterns ! 1) = 2 \<and> extract_date (str ''15 Jan 2024'') = None"
  by (simp add: date_defs)

section \<open>The matcher reads strings of the pattern\<close>

lemma rep_stop: "st \<in> set (rep f 0 n st)"
  by (cases n) simp_all

lemma rep_sound:
  assumes f: "\<And>st st'. st' \<in> set (f st) \<Longrightarrow> \<exists>w\<in>L. fst st = w @ fst st'"
  shows "st' \<in> set (rep f lo n st) \<Longrightarrow>
         \<exists>ws. set ws \<subseteq> L \<and> lo \<le> length ws \<and> length ws \<le> n \<and> fst st = concat ws @ fst st'"
proof (induction n arbitrary: lo st)
  case 0
  then have "lo = 0" and "st' = st"
    by (auto split: if_splits)
  then show ?case
    by (intro exI [of _ "[]"]) simp
next
  case (Suc n)
  from Suc.prems consider
    (more) st1 where "st1 \<in> set (f st)" "st' \<in> set (rep f (lo - 1) n st1)"
    | (stop) "lo = 0" "st' = st"
    by (auto split: if_splits)
  then show ?case
  proof cases
    case more
    from f [OF more(1)] obtain w where w: "w \<in> L" "fst st = w @ fst st1"
      by blast
    from Suc.IH [OF more(2)] obtain ws where ws: "set ws \<subseteq> L" "lo - 1 \<le> length ws"
      "length ws \<le> n" "fst st1 = concat ws @ fst st'"
      by blast
    from w ws show ?thesis
      by (intro exI [of _ "w # ws"]) auto
  next
    case stop
    then show ?thesis
      by (intro exI [of _ "[]"]) simp
  qed
qed

lemma ms_sound: "st' \<in> set (ms r st) \<Longrightarrow> \<exists>w\<in>lang r. fst st = w @ fst st'"
proof (induction r arbitrary: st st')
  case (Sym p)
  then show ?case
    by (cases "fst st") (auto split: if_splits)
next
  case (Cat a b)
  from Cat.prems obtain st1 where 1: "st1 \<in> set (ms a st)" and 2: "st' \<in> set (ms b st1)"
    by auto
  from Cat.IH(1) [OF 1] obtain u where u: "u \<in> lang a" "fst st = u @ fst st1"
    by blast
  from Cat.IH(2) [OF 2] obtain v where v: "v \<in> lang b" "fst st1 = v @ fst st'"
    by blast
  from u v show ?case
    by (intro bexI [of _ "u @ v"]) auto
next
  case (Alt a b)
  from Alt.prems consider "st' \<in> set (ms a st)" | "st' \<in> set (ms b st)"
    by auto
  then show ?case
  proof cases
    case 1
    from Alt.IH(1) [OF 1] show ?thesis by auto
  next
    case 2
    from Alt.IH(2) [OF 2] show ?thesis by auto
  qed
next
  case (Rep lo hi r)
  from Rep.prems have "st' \<in> set (rep (ms r) lo
      (case hi of None \<Rightarrow> length (fst st) | Some h \<Rightarrow> h) st)"
    by simp
  from rep_sound [of "ms r" "lang r", OF Rep.IH this]
  obtain ws where ws: "set ws \<subseteq> lang r" "lo \<le> length ws"
    "length ws \<le> (case hi of None \<Rightarrow> length (fst st) | Some h \<Rightarrow> h)"
    "fst st = concat ws @ fst st'"
    by blast
  then have "concat ws \<in> lang (Rep lo hi r)"
    by (auto split: option.splits)
  with ws(4) show ?case by blast
next
  case (Group i r)
  from Group.prems obtain st1 where 1: "st1 \<in> set (ms r st)" and 2: "fst st' = fst st1"
    by auto
  from Group.IH [OF 1] 2 show ?case
    by simp
next
  case Eps
  then show ?case by simp
next
  case Eol
  then show ?case by (simp split: if_splits)
qed

lemma ms_Group_capture:
  assumes "st' \<in> set (ms (Group i r) st)"
  shows "\<exists>w\<in>lang r. fst st = w @ fst st' \<and> (\<exists>cs. snd st' = (i, w) # cs)"
proof -
  from assms obtain st1 where 1: "st1 \<in> set (ms r st)"
    and 2: "st' = (fst st1, (i, take (length (fst st) - length (fst st1)) (fst st)) # snd st1)"
    by auto
  from ms_sound [OF 1] obtain w where w: "w \<in> lang r" "fst st = w @ fst st1"
    by blast
  with 2 show ?thesis by auto
qed

lemma ms_Cat_iff: "st2 \<in> set (ms (Cat a b) st) \<longleftrightarrow> (\<exists>st1\<in>set (ms a st). st2 \<in> set (ms b st1))"
  by auto

lemma ms_Cat_nonempty: "st1 \<in> set (ms a st) \<Longrightarrow> ms b st1 \<noteq> [] \<Longrightarrow> ms (Cat a b) st \<noteq> []"
  by (simp add: bexI [of _ st1])

section \<open>Searching\<close>

lemma search_from_Some:
  "search_from r i s = Some m \<Longrightarrow>
   \<exists>t st. suffix t s \<and> st \<in> set (ms r (t, [])) \<and> m_rest m = fst st \<and> m_groups m = snd st"
proof (induction s arbitrary: i)
  case Nil
  then show ?case
    by (cases "ms r ([], [])") auto
next
  case (Cons c cs)
  show ?case
  proof (cases "ms r (c # cs, [])")
    case Nil
    with Cons.prems have "search_from r (Suc i) cs = Some m" by simp
    from Cons.IH [OF this] show ?thesis
      by (meson suffix_Cons)
  next
    case (Cons st sts)
    with Cons.prems have "m_rest m = fst st" "m_groups m = snd st" by auto
    moreover have "st \<in> set (ms r (c # cs, []))" using Cons by simp
    ultimately show ?thesis
      by (intro exI [of _ "c # cs"] exI [of _ st]) simp
  qed
qed

lemma search_from_None:
  "search_from r i s = None \<Longrightarrow> suffix t s \<Longrightarrow> ms r (t, []) = []"
proof (induction s arbitrary: i)
  case Nil
  then show ?case
    by (cases "ms r ([], [])") auto
next
  case (Cons c cs)
  from Cons.prems(1) have here: "ms r (c # cs, []) = []"
    and there: "search_from r (Suc i) cs = None"
    by (auto split: list.splits)
  from Cons.prems(2) consider "t = c # cs" | "suffix t cs"
    by (auto simp: suffix_Cons)
  then show ?case
    using here Cons.IH [OF there] by cases auto
qed

lemma search_from_match:
  "ms r (t, []) \<noteq> [] \<Longrightarrow> suffix t s \<Longrightarrow> search_from r i s \<noteq> None"
  using search_from_None by blast

lemma findall_Cons:
  "findall r s \<noteq> [] \<Longrightarrow> \<exists>t. suffix t s \<and> ms r (t, []) \<noteq> []"
proof (induction r s rule: findall.induct)
  case (1 r s)
  show ?case
  proof (cases "ms r (s, [])")
    case Nil
    with "1.prems" obtain c cs where s: "s = c # cs" and ne: "findall r cs \<noteq> []"
      by (subst (asm) findall.simps) (auto split: list.splits)
    from "1.IH"(1) [OF Nil s ne] s show ?thesis
      by (meson suffix_Cons)
  next
    case (Cons st sts)
    then show ?thesis
      by (intro exI [of _ s]) simp
  qed
qed

lemma findall_entries:
  "(\<And>s st. st \<in> set (ms r (s, [])) \<Longrightarrow> P (map_of (snd st) 1)) \<Longrightarrow>
   x \<in> set (findall r s) \<Longrightarrow> P x"
proof (induction r s rule: findall.induct)
  case (1 r s)
  note cap = "1.prems"(1)
  show ?case
  proof (cases "ms r (s, [])")
    case Nil
    with "1.prems"(2) obtain c cs where s: "s = c # cs" and x: "x \<in> set (findall r cs)"
      by (subst (asm) findall.simps) (auto split: list.splits)
    from "1.IH"(1) [OF Nil s cap x] show ?thesis .
  next
    case (Cons st sts)
    have st: "st \<in> set (ms r (s, []))" using Cons by simp
    from "1.prems"(2) Cons consider
      (head) "x = map_of (snd st) 1"
      | (rest) "length (fst st) < length s" "x \<in> set (findall r (fst st))"
      | (skip) c cs where "\<not> length (fst st) < length s" "s = c # cs" "x \<in> set (findall r cs)"
      by (subst (asm) findall.simps) (auto split: list.splits if_splits)
    then show ?thesis
    proof cases
      case head
      with cap [OF st] show ?thesis by simp
    next
      case rest
      from "1.IH"(2) [OF Cons rest(1) cap rest(2)] show ?thesis .
    next
      case skip
      from "1.IH"(3) [OF Cons skip(1,2) cap skip(3)] show ?thesis .
    qed
  qed
qed

section \<open>The numbers of the amount patterns\<close>

lemma not_digit_comma: "\<not> is_digit 44"
  by (simp add: is_digit_def digit_val_def)

lemma not_digit_point: "\<not> is_digit 46"
  by (simp add: is_digit_def digit_val_def)

lemma lang_Rep_Sym:
  assumes "w \<in> lang (Rep lo (Some hi) (Sym p))"
  shows "(\<forall>c\<in>set w. p c) \<and> lo \<le> length w \<and> length w \<le> hi"
proof -
  from assms obtain ws where ws: "w = concat ws" "set ws \<subseteq> {[c] | c. p c}"
    "lo \<le> length ws" "length ws \<le> hi"
    by auto
  from ws(2) have "(\<forall>c\<in>set (concat ws). p c) \<and> length (concat ws) = length ws"
    by (induction ws) auto
  with ws show ?thesis by simp
qed

lemma lang_Cat:
  assumes "w \<in> lang (Cat a b)"
  obtains u v where "w = u @ v" "u \<in> lang a" "v \<in> lang b"
  using assms by auto

lemma lang_lit: "u \<in> lang (Sym (lit l)) \<longleftrightarrow> u = [of_char l]"
  by (auto simp: lit_def)

lemma lang_star:
  assumes "w \<in> lang (star r)"
  obtains ws where "w = concat ws" "set ws \<subseteq> lang r"
  using assms by (auto simp: star_def)

lemma lang_opt:
  assumes "w \<in> lang (opt r)"
  shows "w = [] \<or> w \<in> lang r"
proof -
  from assms obtain ws where ws: "w = concat ws" "set ws \<subseteq> lang r" "length ws \<le> 1"
    by (auto simp: opt_def)
  show ?thesis
  proof (cases ws)
    case Nil
    with ws show ?thesis by simp
  next
    case (Cons v vs)
    with ws(3) have "vs = []" by simp
    with Cons ws show ?thesis by simp
  qed
qed

lemma number_Group: "number = Group 1 number_body"
  by (simp add: number_def number_body_def)

lemma lang_comma_digits:
  assumes "v \<in> lang (Cat (Sym (lit CHR '','')) (Rep 3 (Some 3) (Sym is_digit)))"
  shows "\<forall>c\<in>set (remove_commas v). is_digit c"
proof -
  from assms obtain u d where v: "v = u @ d" and u: "u \<in> lang (Sym (lit CHR '',''))"
    and d: "d \<in> lang (Rep 3 (Some 3) (Sym is_digit))"
    by (rule lang_Cat)
  from u have "u = [44]"
    by (simp only: lang_lit) simp
  with v lang_Rep_Sym [OF d, THEN conjunct1] show ?thesis
    by (simp add: remove_commas_def)
qed

lemma remove_commas_concat:
  assumes "\<And>v. v \<in> L \<Longrightarrow> \<forall>c\<in>set (remove_commas v). is_digit c"
    and "set vs \<subseteq> L"
  shows "\<forall>c\<in>set (remove_commas (concat vs)). is_digit c"
  using assms(2)
proof (induction vs)
  case Nil
  show ?case by (simp add: remove_commas_def)
next
  case (Cons v vs)
  then have "v \<in> L" and "\<forall>c\<in>set (remove_commas (concat vs)). is_digit c"
    by simp_all
  with assms(1) [of v] show ?case
    by (auto simp: remove_commas_def)
qed

lemma lang_thousands:
  assumes "w \<in> lang (star (Cat (Sym (lit CHR '','')) (Rep 3 (Some 3) (Sym is_digit))))"
  shows "\<forall>c\<in>set (remove_commas w). is_digit c"
proof -
  from assms obtain ws where ws: "w = concat ws"
    "set ws \<subseteq> lang (Cat (Sym (lit CHR '','')) (Rep 3 (Some 3) (Sym is_digit)))"
    by (rule lang_star)
  have "\<forall>c\<in>set (remove_commas (concat ws)). is_digit c"
  proof (rule remove_commas_concat [OF _ ws(2)])
    fix v
    assume "v \<in> lang (Cat (Sym (lit CHR '','')) (Rep 3 (Some 3) (Sym is_digit)))"
    then show "\<forall>c\<in>set (remove_commas v). is_digit c"
      by (rule lang_comma_digits)
  qed
  with ws(1) show ?thesis
    by (simp only:)
qed

lemma lang_cents:
  assumes "w \<in> lang (opt (Cat (Sym (lit CHR ''.'')) (Rep 2 (Some 2) (Sym is_digit))))"
  shows "w = [] \<or> (\<exists>d. w = 46 # d \<and> d \<noteq> [] \<and> (\<forall>c\<in>set d. is_digit c))"
proof -
  from lang_opt [OF assms] show ?thesis
  proof
    assume "w = []"
    then show ?thesis by simp
  next
    assume "w \<in> lang (Cat (Sym (lit CHR ''.'')) (Rep 2 (Some 2) (Sym is_digit)))"
    then obtain u d where w: "w = u @ d" and u: "u \<in> lang (Sym (lit CHR ''.''))"
      and d: "d \<in> lang (Rep 2 (Some 2) (Sym is_digit))"
      by (rule lang_Cat)
    from u have "u = [46]"
      by (simp only: lang_lit) simp
    moreover from lang_Rep_Sym [OF d] have "d \<noteq> []" "\<forall>c\<in>set d. is_digit c"
      by auto
    ultimately show ?thesis using w by simp
  qed
qed

lemma lang_number_body:
  assumes "w \<in> lang number_body"
  shows "\<exists>ip fp. remove_commas w = ip @ fp \<and> ip \<noteq> [] \<and> (\<forall>c\<in>set ip. is_digit c)
           \<and> (fp = [] \<or> (\<exists>d. fp = 46 # d \<and> d \<noteq> [] \<and> (\<forall>c\<in>set d. is_digit c)))
           \<and> (\<exists>c\<in>set w. is_digit c)"
proof -
  from assms obtain a bc where 1: "w = a @ bc"
    and a: "a \<in> lang (Rep 1 (Some 3) (Sym is_digit))"
    and bc: "bc \<in> lang (Cat (star (Cat (Sym (lit CHR '','')) (Rep 3 (Some 3) (Sym is_digit))))
                            (opt (Cat (Sym (lit CHR ''.'')) (Rep 2 (Some 2) (Sym is_digit)))))"
    unfolding number_body_def by (rule lang_Cat)
  from bc obtain b c where 2: "bc = b @ c"
    and b: "b \<in> lang (star (Cat (Sym (lit CHR '','')) (Rep 3 (Some 3) (Sym is_digit))))"
    and c: "c \<in> lang (opt (Cat (Sym (lit CHR ''.'')) (Rep 2 (Some 2) (Sym is_digit))))"
    by (rule lang_Cat)
  from 1 2 have w: "w = a @ b @ c" by simp
  from lang_Rep_Sym [OF a] have da: "\<forall>x\<in>set a. is_digit x" and na: "a \<noteq> []"
    by auto
  from da not_digit_comma have ra: "remove_commas a = a"
    by (auto simp: remove_commas_def filter_id_conv)
  from lang_cents [OF c]
  have fc: "c = [] \<or> (\<exists>d. c = 46 # d \<and> d \<noteq> [] \<and> (\<forall>x\<in>set d. is_digit x))" .
  with not_digit_comma have rc: "remove_commas c = c"
    by (auto simp: remove_commas_def filter_id_conv)
  from w ra rc have "remove_commas w = (a @ remove_commas b) @ c"
    by (simp add: remove_commas_def)
  moreover have "a @ remove_commas b \<noteq> []" using na by simp
  moreover have "\<forall>x\<in>set (a @ remove_commas b). is_digit x"
    using da lang_thousands [OF b] by auto
  moreover have "\<exists>x\<in>set w. is_digit x"
    using w da na by (cases a) auto
  ultimately show ?thesis using fc by blast
qed

lemma py_float_decimal:
  assumes ip: "ip \<noteq> []" "\<forall>c\<in>set ip. is_digit c"
    and fp: "fp = [] \<or> (\<exists>d. fp = 46 # d \<and> d \<noteq> [] \<and> (\<forall>c\<in>set d. is_digit c))"
  shows "\<exists>v. py_float (ip @ fp) = Some v"
proof -
  have nd: "fp \<noteq> [] \<Longrightarrow> \<not> is_digit (hd fp)"
    using fp not_digit_point by auto
  have tw: "takeWhile is_digit (ip @ fp) = ip"
    using ip(2) nd by (cases fp) (auto simp: takeWhile_append2)
  have dw: "dropWhile is_digit (ip @ fp) = fp"
    using ip(2) nd by (cases fp) (auto simp: dropWhile_append2)
  have eq: "py_float (ip @ fp) =
      (case fp of
         [] \<Rightarrow> if ip = [] then None else Some (of_nat (nat_of_digits ip))
       | c # d \<Rightarrow>
           if c = 46 \<and> list_all is_digit d \<and> (ip \<noteq> [] \<or> d \<noteq> [])
           then Some (of_nat (nat_of_digits ip) + of_nat (nat_of_digits d) / 10 ^ length d)
           else None)"
    unfolding py_float_def Let_def tw dw ..
  from fp show ?thesis
  proof
    assume "fp = []"
    with ip(1) show ?thesis
      unfolding eq by simp
  next
    assume "\<exists>d. fp = 46 # d \<and> d \<noteq> [] \<and> (\<forall>c\<in>set d. is_digit c)"
    then obtain d where "fp = 46 # d" "d \<noteq> []" "\<forall>c\<in>set d. is_digit c"
      by blast
    then show ?thesis
      unfolding eq by (simp add: list_all_iff)
  qed
qed

lemma number_parses:
  assumes "w \<in> lang number_body"
  shows "\<exists>v. amount_of (Some w) = Some v"
proof -
  from lang_number_body [OF assms] obtain ip fp where
    "remove_commas w = ip @ fp" "ip \<noteq> []" "\<forall>c\<in>set ip. is_digit c"
    "fp = [] \<or> (\<exists>d. fp = 46 # d \<and> d \<noteq> [] \<and> (\<forall>c\<in>set d. is_digit c))"
    by blast
  with py_float_decimal [of ip fp] show ?thesis
    by (simp add: amount_of_def)
qed

text \<open>A match of a pattern that ends in the number has the number as its group 1.\<close>

lemma ends_in_number:
  assumes "st' \<in> set (ms (Cat a number) st)"
  shows "\<exists>w\<in>lang number_body. map_of (snd st') 1 = Some w \<and> suffix (w @ fst st') (fst st)"
proof -
  from assms obtain st1 where 1: "st1 \<in> set (ms a st)" and 2: "st' \<in> set (ms number st1)"
    by auto
  from ms_sound [OF 1] obtain u where u: "fst st = u @ fst st1"
    by blast
  from ms_Group_capture [of st' 1 number_body st1] 2
  obtain w cs where w: "w \<in> lang number_body" "fst st1 = w @ fst st'" "snd st' = (1, w) # cs"
    by (auto simp: number_Group)
  from u w show ?thesis
    by (auto simp: suffix_def)
qed

section \<open>Digits and amounts\<close>

lemma labelled_Cat: "labelled l = Cat l (Cat (star (Sym colon_or_space))
    (Cat (opt (Sym rupee)) (Cat (star (Sym is_space)) number)))"
  by (simp add: labelled_def)

lemma amount_pattern_Cat:
  "amount_pattern = Cat (opt (Sym rupee)) (Cat (star (Sym is_space)) number)"
  by (simp add: amount_pattern_def)

lemma ms_Cat_last:
  assumes "st' \<in> set (ms (Cat a b) st)"
  obtains st1 where "st1 \<in> set (ms a st)" "st' \<in> set (ms b st1)"
  using assms by auto

text \<open>
  Every match of a labelled pattern and of the fallback pattern ends in the number: its
  group 1 is a number, read from the text.
\<close>

lemma number_match:
  assumes "st' \<in> set (ms number st)"
  shows "\<exists>w\<in>lang number_body. map_of (snd st') 1 = Some w \<and> suffix (w @ fst st') (fst st)"
proof -
  from ms_Group_capture [of st' 1 number_body st] assms
  obtain w cs where "w \<in> lang number_body" "fst st = w @ fst st'" "snd st' = (1, w) # cs"
    by (auto simp: number_Group)
  then show ?thesis
    by (intro bexI [of _ w]) (simp_all add: suffix_def)
qed

lemma suffix_step:
  assumes "st1 \<in> set (ms a st)" and "suffix x (fst st1)"
  shows "suffix x (fst st)"
proof -
  from ms_sound [OF assms(1)] obtain u where "fst st = u @ fst st1"
    by blast
  with assms(2) show ?thesis
    by (auto simp: suffix_def)
qed

lemma labelled_match:
  assumes "st' \<in> set (ms (labelled l) st)"
  shows "\<exists>w\<in>lang number_body. map_of (snd st') 1 = Some w \<and> suffix (w @ fst st') (fst st)"
proof -
  from assms obtain s1 where 1: "s1 \<in> set (ms l st)"
    and r1: "st' \<in> set (ms (Cat (star (Sym colon_or_space))
        (Cat (opt (Sym rupee)) (Cat (star (Sym is_space)) number))) s1)"
    unfolding labelled_Cat by (rule ms_Cat_last)
  from r1 obtain s2 where 2: "s2 \<in> set (ms (star (Sym colon_or_space)) s1)"
    and r2: "st' \<in> set (ms (Cat (opt (Sym rupee)) (Cat (star (Sym is_space)) number)) s2)"
    by (rule ms_Cat_last)
  from r2 obtain s3 where 3: "s3 \<in> set (ms (opt (Sym rupee)) s2)"
    and r3: "st' \<in> set (ms (Cat (star (Sym is_space)) number) s3)"
    by (rule ms_Cat_last)
  from r3 obtain s4 where 4: "s4 \<in> set (ms (star (Sym is_space)) s3)"
    and r4: "st' \<in> set (ms number s4)"
    by (rule ms_Cat_last)
  from number_match [OF r4] obtain w where w: "w \<in> lang number_body"
    "map_of (snd st') 1 = Some w" "suffix (w @ fst st') (fst s4)"
    by blast
  from w(3) have "suffix (w @ fst st') (fst st)"
    using suffix_step [OF 4] suffix_step [OF 3] suffix_step [OF 2] suffix_step [OF 1]
    by blast
  with w show ?thesis by blast
qed

lemma amount_pattern_match:
  assumes "st' \<in> set (ms amount_pattern st)"
  shows "\<exists>w\<in>lang number_body. map_of (snd st') 1 = Some w \<and> suffix (w @ fst st') (fst st)"
proof -
  from assms obtain s3 where 3: "s3 \<in> set (ms (opt (Sym rupee)) st)"
    and r3: "st' \<in> set (ms (Cat (star (Sym is_space)) number) s3)"
    unfolding amount_pattern_Cat by (rule ms_Cat_last)
  from r3 obtain s4 where 4: "s4 \<in> set (ms (star (Sym is_space)) s3)"
    and r4: "st' \<in> set (ms number s4)"
    by (rule ms_Cat_last)
  from number_match [OF r4] obtain w where w: "w \<in> lang number_body"
    "map_of (snd st') 1 = Some w" "suffix (w @ fst st') (fst s4)"
    by blast
  from w(3) have "suffix (w @ fst st') (fst st)"
    using suffix_step [OF 4] suffix_step [OF 3]
    by blast
  with w show ?thesis by blast
qed

lemma number_has_digit:
  assumes "w \<in> lang number_body" and "suffix (w @ r) t"
  shows "\<exists>c\<in>set t. is_digit c"
proof -
  from lang_number_body [OF assms(1)] obtain c where "c \<in> set w" "is_digit c"
    by blast
  moreover from assms(2) have "set w \<subseteq> set t"
    by (auto simp: suffix_def)
  ultimately show ?thesis by blast
qed

text \<open>The fallback pattern matches wherever a digit stands.\<close>

lemma ms_star_stop: "st \<in> set (ms (star r) st)"
  by (simp add: star_def rep_stop)

lemma ms_opt_stop: "st \<in> set (ms (opt r) st)"
  by (simp add: opt_def)

lemma rep_step:
  "st1 \<in> set (f st) \<Longrightarrow> st2 \<in> set (rep f (lo - 1) n st1) \<Longrightarrow>
   st2 \<in> set (rep f lo (Suc n) st)"
  by auto

lemma digit_starts_number:
  assumes "is_digit c"
  shows "ms number (c # cs, caps) \<noteq> []"
proof -
  have 1: "(cs, caps) \<in> set (ms (Sym is_digit) (c # cs, caps))"
    using assms by simp
  have 2: "(cs, caps) \<in> set (rep (ms (Sym is_digit)) (1 - 1) 2 (cs, caps))"
    using rep_stop [of "(cs, caps)" "ms (Sym is_digit)" 2] by simp
  have "(cs, caps) \<in> set (rep (ms (Sym is_digit)) 1 (Suc 2) (c # cs, caps))"
    using 1 2 by (rule rep_step)
  then have a: "(cs, caps) \<in> set (ms (Rep 1 (Some 3) (Sym is_digit)) (c # cs, caps))"
    by (simp only: ms.simps option.case eval_nat_numeral fst_conv)
  have b: "(cs, caps) \<in> set (ms (Cat (star (Cat (Sym (lit CHR '','')) (Rep 3 (Some 3) (Sym is_digit))))
              (opt (Cat (Sym (lit CHR ''.'')) (Rep 2 (Some 2) (Sym is_digit))))) (cs, caps))"
    unfolding ms_Cat_iff using ms_star_stop ms_opt_stop by blast
  from a b have "(cs, caps) \<in> set (ms number_body (c # cs, caps))"
    unfolding number_body_def ms_Cat_iff by blast
  then have "ms number_body (c # cs, caps) \<noteq> []"
    by auto
  then show ?thesis
    unfolding number_Group by (simp only: ms.simps) simp
qed

lemma digit_starts_amount:
  assumes "is_digit c"
  shows "ms amount_pattern (c # cs, []) \<noteq> []"
proof -
  from digit_starts_number [OF assms] obtain st where "st \<in> set (ms number (c # cs, []))"
    by (cases "ms number (c # cs, [])") auto
  then have "st \<in> set (ms amount_pattern (c # cs, []))"
    unfolding amount_pattern_Cat ms_Cat_iff using ms_star_stop ms_opt_stop by blast
  then show ?thesis by auto
qed

lemma findall_digit:
  "\<exists>c\<in>set s. is_digit c \<Longrightarrow> findall amount_pattern s \<noteq> []"
proof (induction s)
  case Nil
  then show ?case by simp
next
  case (Cons c cs)
  show ?case
  proof (cases "ms amount_pattern (c # cs, [])")
    case Nil
    with digit_starts_amount [of c cs] have "\<not> is_digit c" by auto
    with Cons.prems have "\<exists>c\<in>set cs. is_digit c" by simp
    from Cons.IH [OF this] Nil show ?thesis
      by (subst findall.simps) simp
  next
    case (Cons st sts)
    then show ?thesis
      by (subst findall.simps) simp
  qed
qed

section \<open>What \<open>extract_amount\<close> returns\<close>

lemma suffix_set: "suffix t s \<Longrightarrow> set t \<subseteq> set s"
  by (auto simp: suffix_def)

lemma labelled_search:
  assumes "re_search (labelled l) text = Some m"
  shows "\<exists>w\<in>lang number_body. group m 1 = Some w \<and> (\<exists>c\<in>set text. is_digit c)"
proof -
  from assms have "search_from (labelled l) 0 text = Some m"
    by (simp add: re_search_def)
  from search_from_Some [OF this] obtain t st where t: "suffix t text"
    and st: "st \<in> set (ms (labelled l) (t, []))" and m: "m_groups m = snd st"
    by blast
  from labelled_match [OF st] obtain w where w: "w \<in> lang number_body"
    "map_of (snd st) 1 = Some w" "suffix (w @ fst st) t"
    by auto
  from number_has_digit [OF w(1,3)] suffix_set [OF t] have "\<exists>c\<in>set text. is_digit c"
    by blast
  with w m show ?thesis
    by (auto simp: group_def)
qed

lemma labelled_parses:
  assumes "re_search (labelled l) text = Some m"
  shows "\<exists>v. amount_of (group m 1) = Some v"
proof -
  from labelled_search [OF assms] obtain w where "w \<in> lang number_body" "group m 1 = Some w"
    by blast
  with number_parses [of w] show ?thesis by simp
qed

lemma findall_parses:
  assumes "x \<in> set (findall amount_pattern s)"
  shows "\<exists>v. amount_of x = Some v"
proof (rule findall_entries [OF _ assms])
  fix t st
  assume "st \<in> set (ms amount_pattern (t, []))"
  from amount_pattern_match [OF this] obtain w where "w \<in> lang number_body"
    "map_of (snd st) 1 = Some w"
    by blast
  with number_parses [of w] show "\<exists>v. amount_of (map_of (snd st) 1) = Some v"
    by simp
qed

lemma parse_amounts_length:
  "\<forall>x\<in>set xs. \<exists>v. amount_of x = Some v \<Longrightarrow> length (parse_amounts xs) = length xs"
  by (induction xs) auto

lemma findall_needs_digit:
  assumes "findall amount_pattern s \<noteq> []"
  shows "\<exists>c\<in>set s. is_digit c"
proof -
  from findall_Cons [OF assms] obtain t st where t: "suffix t s"
    and st: "st \<in> set (ms amount_pattern (t, []))"
    by (metis list.set_intros(1) neq_Nil_conv)
  from amount_pattern_match [OF st] obtain w where "w \<in> lang number_body"
    "suffix (w @ fst st) t"
    by auto
  from number_has_digit [OF this] suffix_set [OF t] show ?thesis
    by blast
qed

lemma py_max_Max: "xs \<noteq> [] \<Longrightarrow> py_max xs = Max (set xs)"
proof (cases xs)
  case Nil
  assume "xs \<noteq> []"
  with Nil show ?thesis by simp
next
  case (Cons x ys)
  have "foldl max x ys = fold max ys x"
    by (induction ys arbitrary: x) (simp_all add: max.commute)
  also have "\<dots> = Max (set (x # ys))"
    by (rule Max.set_eq_fold [symmetric])
  finally show ?thesis
    using Cons by (simp add: py_max_def)
qed

lemma total_patterns_eq:
  "total_patterns =
     [labelled (alts (map word_ci
        [''grand total'', ''grandtotal'', ''net amount'', ''amount payable'', ''amount to pay'',
         ''total amount'', ''bill total'', ''grand total''])),
      labelled (word_ci ''total'')]"
  by (simp only: total_patterns_def)

lemma extract_amount_unfold:
  "extract_amount text =
     (case re_search (total_patterns ! 0) text of
        Some m \<Rightarrow> amount_of (group m 1)
      | None \<Rightarrow>
          (case re_search (total_patterns ! 1) text of
             Some m \<Rightarrow> amount_of (group m 1)
           | None \<Rightarrow>
               (if parse_amounts (findall amount_pattern text) = [] then None
                else Some (Max (set (parse_amounts (findall amount_pattern text)))))))"
proof -
  have p0: "total_patterns ! 0 = labelled (alts (map word_ci
        [''grand total'', ''grandtotal'', ''net amount'', ''amount payable'', ''amount to pay'',
         ''total amount'', ''bill total'', ''grand total'']))"
    and p1: "total_patterns ! 1 = labelled (word_ci ''total'')"
    by (simp_all only: total_patterns_eq nth_Cons_0 nth_Cons_Suc One_nat_def)
  show ?thesis
  proof (cases "re_search (total_patterns ! 0) text")
    case (Some m)
    from labelled_parses [of _ "text" m] Some p0 obtain v where "amount_of (group m 1) = Some v"
      by auto
    with Some p0 show ?thesis
      by (simp add: extract_amount_def total_patterns_eq del: alts.simps list.map)
  next
    case None
    note n0 = None
    show ?thesis
    proof (cases "re_search (total_patterns ! 1) text")
      case (Some m)
      from labelled_parses [of _ "text" m] Some p1 obtain v where "amount_of (group m 1) = Some v"
        by auto
      with Some n0 p0 p1 show ?thesis
        by (simp add: extract_amount_def total_patterns_eq del: alts.simps list.map)
    next
      case None
      with n0 p0 p1 show ?thesis
        by (simp add: extract_amount_def total_patterns_eq Let_def py_max_Max
              del: alts.simps list.map)
    qed
  qed
qed

section \<open>Evaluating the floating-point operations\<close>

lemma bit_length_numeral:
  "bit_length 0 = 0"
  "bit_length (numeral k) = Suc (bit_length (numeral k div 2))"
  "bit_length (Suc 0) = Suc 0"
  by (simp_all add: bit_length.simps)

lemma floor_rat_numeral:
  "\<lfloor>numeral a / numeral b :: rat\<rfloor> = numeral a div numeral b"
  "\<lfloor>1 / numeral b :: rat\<rfloor> = 1 div numeral b"
  using floor_divide_of_int_eq [of "numeral a" "numeral b", where ?'a = rat]
    floor_divide_of_int_eq [of 1 "numeral b", where ?'a = rat]
  by simp_all

lemmas float_defs = fl_def binade_def round_even_def truediv_def mul_int_float_def py_int_def
  bit_length_numeral Let_def floor_rat_numeral

section \<open>Rounding to a double\<close>

lemma bit_length_bounds:
  "0 < n \<Longrightarrow> 2 ^ (bit_length n - 1) \<le> n \<and> n < 2 ^ bit_length n"
proof (induction n rule: bit_length.induct)
  case (1 n)
  show ?case
  proof (cases "n div 2 = 0")
    case True
    with "1.prems" have "n = 1" by presburger
    then show ?thesis
      by (simp add: bit_length.simps)
  next
    case False
    with "1.IH" "1.prems" have ih: "2 ^ (bit_length (n div 2) - 1) \<le> n div 2"
      "n div 2 < 2 ^ bit_length (n div 2)"
      by simp_all
    have pos: "0 < bit_length (n div 2)"
      using False by (simp add: bit_length.simps [of "n div 2"])
    have b: "bit_length n = Suc (bit_length (n div 2))"
      using "1.prems" by (simp add: bit_length.simps [of n])
    have "(2::nat) ^ bit_length (n div 2) = 2 * 2 ^ (bit_length (n div 2) - 1)"
      using pos by (cases "bit_length (n div 2)") simp_all
    moreover from ih(1) have "2 * 2 ^ (bit_length (n div 2) - 1) \<le> 2 * (n div 2)"
      by simp
    moreover have "2 * (n div 2) \<le> n"
      by simp
    ultimately have lo: "2 ^ bit_length (n div 2) \<le> n"
      by linarith
    from ih(2) have hi: "n < 2 * 2 ^ bit_length (n div 2)"
      by arith
    from lo hi b show ?thesis by simp
  qed
qed

lemma bit_length_pos: "0 < n \<Longrightarrow> 0 < bit_length n"
  by (simp add: bit_length.simps [of n])

lemma floor_bounds:
  fixes x :: rat
  assumes "1 \<le> x"
  shows "2 ^ (bit_length (nat \<lfloor>x\<rfloor>) - 1) \<le> x \<and> x < 2 ^ bit_length (nat \<lfloor>x\<rfloor>)"
proof -
  let ?j = "nat \<lfloor>x\<rfloor>"
  from assms have j: "0 < ?j" by simp
  from bit_length_bounds [OF j] have lo: "2 ^ (bit_length ?j - 1) \<le> ?j"
    and hi: "?j < 2 ^ bit_length ?j"
    by simp_all
  have jx: "of_nat ?j \<le> x" "x < of_nat ?j + 1"
    using assms by (simp_all add: of_nat_nat) linarith+
  from lo have "(of_nat (2 ^ (bit_length ?j - 1)) :: rat) \<le> of_nat ?j"
    by (rule of_nat_mono)
  then have "(2 :: rat) ^ (bit_length ?j - 1) \<le> of_nat ?j"
    by (simp only: of_nat_power of_nat_numeral)
  from this jx(1) have 1: "2 ^ (bit_length ?j - 1) \<le> x"
    by (rule order_trans)
  from hi have "?j + 1 \<le> 2 ^ bit_length ?j"
    by (metis Suc_eq_plus1 Suc_leI)
  then have "(of_nat (?j + 1) :: rat) \<le> of_nat (2 ^ bit_length ?j)"
    by (rule of_nat_mono)
  then have "(of_nat ?j :: rat) + 1 \<le> 2 ^ bit_length ?j"
    by (simp only: of_nat_power of_nat_numeral of_nat_add of_nat_1)
  from jx(2) this have 2: "x < 2 ^ bit_length ?j"
    by (rule less_le_trans)
  from 1 2 show ?thesis ..
qed

lemma binade_bounds:
  assumes "0 < x"
  shows "2 powi binade x \<le> x \<and> x < 2 powi (binade x + 1)"
proof (cases "1 \<le> x")
  case True
  let ?b = "bit_length (nat \<lfloor>x\<rfloor>)"
  from True have bpos: "0 < ?b" by (simp add: bit_length_pos)
  have "binade x = int (?b - 1)"
    using True bpos by (simp add: binade_def)
  then have p1: "(2 :: rat) powi binade x = 2 ^ (?b - 1)"
    by (simp only: power_int_of_nat)
  have "binade x + 1 = int ?b"
    using True bpos by (simp add: binade_def)
  then have p2: "(2 :: rat) powi (binade x + 1) = 2 ^ ?b"
    by (simp only: power_int_of_nat)
  from floor_bounds [OF True] show ?thesis
    unfolding p1 p2 .
next
  case False
  let ?y = "1 / x"
  let ?b = "bit_length (nat \<lfloor>?y\<rfloor>)"
  from False assms have y: "1 \<le> ?y" by simp
  then have bpos: "0 < ?b" by (simp add: bit_length_pos)
  from floor_bounds [OF y] have lo: "2 ^ (?b - 1) \<le> ?y" and hi: "?y < 2 ^ ?b"
    by simp_all
  from lo assms have up: "x * 2 ^ (?b - 1) \<le> 1"
    by (simp add: field_simps)
  from hi assms have low: "1 < x * 2 ^ ?b"
    by (simp add: field_simps)
  have p2: "(2::rat) ^ ?b = 2 * 2 ^ (?b - 1)"
    using bpos by (cases ?b) simp_all
  show ?thesis
  proof (cases "x * 2 ^ (?b - 1) = 1")
    case True
    with False have e: "binade x = - int (?b - 1)"
      using bpos by (simp add: binade_def Let_def)
    from True have x: "x = 1 / 2 ^ (?b - 1)"
      by (simp add: field_simps)
    have A: "2 powi (- int (?b - 1)) = (1 / 2 ^ (?b - 1) :: rat)"
      by (simp add: power_int_minus field_simps)
    have B: "2 powi (- int (?b - 1) + 1) = (2 * (1 / 2 ^ (?b - 1)) :: rat)"
      by (simp add: power_int_add power_int_minus power_int_diff field_simps)
    have "(0 :: rat) < 1 / 2 ^ (?b - 1)"
      by simp
    with x show ?thesis
      unfolding e A B by linarith
  next
    case ne: False
    with False have e: "binade x = - int ?b"
      by (simp add: binade_def Let_def)
    have a: "2 powi (- int ?b) = (1 / 2 ^ ?b :: rat)"
      by (simp add: power_int_minus field_simps)
    have b: "2 powi (- int ?b + 1) = (1 / 2 ^ (?b - 1) :: rat)"
      by (simp add: power_int_add power_int_minus power_int_diff p2 field_simps)
    from low have 1: "1 / 2 ^ ?b \<le> x"
      by (simp add: field_simps)
    from up ne have "x * 2 ^ (?b - 1) < 1" by simp
    then have 2: "x < 1 / 2 ^ (?b - 1)"
      by (simp add: field_simps)
    from 1 2 show ?thesis
      unfolding e a b ..
  qed
qed

lemma round_even_err: "\<bar>of_int (round_even y) - y\<bar> \<le> 1 / 2"
proof -
  have "of_int \<lfloor>y\<rfloor> \<le> y" "y < of_int \<lfloor>y\<rfloor> + 1"
    by linarith+
  then show ?thesis
    by (auto simp: round_even_def Let_def)
qed

lemma round_even_of_int: "round_even (of_int z) = z"
  by (simp add: round_even_def)

lemma round_even_ge:
  assumes "of_int z \<le> y"
  shows "z \<le> round_even y"
proof -
  from assms have "z \<le> \<lfloor>y\<rfloor>" by (simp add: le_floor_iff)
  then show ?thesis
    by (auto simp: round_even_def Let_def)
qed

lemma fl_pos_eq:
  assumes "0 < x"
  shows "fl x = of_int (round_even (x * 2 powi (52 - binade x))) / 2 powi (52 - binade x)"
proof -
  have "(2 :: rat) powi (binade x - 52) = 1 / 2 powi (52 - binade x)"
    by (simp add: power_int_diff)
  with assms show ?thesis
    by (simp add: fl_def)
qed

lemma fl_err:
  assumes "0 < x"
  shows "\<bar>fl x - x\<bar> \<le> x / 2 ^ 53"
proof -
  define p :: rat where "p = 2 powi (52 - binade x)"
  have p: "0 < p" by (simp add: p_def)
  have r: "\<bar>of_int (round_even (x * p)) - x * p\<bar> \<le> 1 / 2"
    by (rule round_even_err)
  have "fl x - x = (of_int (round_even (x * p)) - x * p) / p"
    using p by (simp add: fl_pos_eq [OF assms] p_def [symmetric] field_simps)
  then have "\<bar>fl x - x\<bar> = \<bar>of_int (round_even (x * p)) - x * p\<bar> / p"
    using p by (simp add: abs_divide)
  also have "\<dots> \<le> (1 / 2) / p"
    using p by (intro divide_right_mono r) simp
  also have "\<dots> = 2 powi binade x / 2 ^ 53"
  proof -
    have "p * 2 powi binade x = 2 ^ 52"
      unfolding p_def by (simp add: power_int_diff)
    then have "2 powi binade x = 2 ^ 52 / p"
      using p by (simp add: field_simps)
    then show ?thesis by simp
  qed
  also have "\<dots> \<le> x / 2 ^ 53"
    using binade_bounds [OF assms] by (simp add: divide_right_mono)
  finally show ?thesis .
qed

lemma fl_bounds:
  assumes "0 < x"
  shows "x - x / 2 ^ 53 \<le> fl x" and "fl x \<le> x + x / 2 ^ 53"
proof -
  from fl_err [OF assms]
  have "fl x - x \<le> x / 2 ^ 53 \<and> - (fl x - x) \<le> x / 2 ^ 53"
    by (simp only: abs_le_iff)
  then show "x - x / 2 ^ 53 \<le> fl x" and "fl x \<le> x + x / 2 ^ 53"
    by linarith+
qed

lemma fl_pos: "0 < x \<Longrightarrow> 0 < fl x"
proof -
  assume x: "0 < x"
  then have "x / 2 ^ 53 < x"
    by (simp add: field_simps)
  with fl_bounds(1) [OF x] show ?thesis by linarith
qed

text \<open>A number below \<open>2 ^ 53\<close> is scaled up, not down, before it is rounded.\<close>

lemma binade_small:
  assumes "0 < x" "x < 2 ^ 53"
  shows "binade x \<le> 52"
proof (rule ccontr)
  assume "\<not> binade x \<le> 52"
  then have "53 \<le> binade x" by simp
  then have "(2 :: rat) powi 53 \<le> 2 powi binade x"
    by (intro power_int_increasing) simp_all
  with binade_bounds [OF assms(1)] assms(2) show False
    by simp
qed

lemma fl_ge_nat:
  assumes "of_nat k \<le> x" "0 < x" "x < 2 ^ 53"
  shows "of_nat k \<le> fl x"
proof -
  define m where "m = nat (52 - binade x)"
  from binade_small [OF assms(2,3)] have m: "52 - binade x = int m"
    by (simp add: m_def)
  have p: "(2 :: rat) powi (52 - binade x) = 2 ^ m"
    unfolding m by (rule power_int_of_nat)
  from assms(1) have "of_nat k * 2 ^ m \<le> x * 2 ^ m"
    by (simp add: mult_right_mono)
  then have "of_int (int (k * 2 ^ m)) \<le> x * 2 ^ m"
    by simp
  then have "int (k * 2 ^ m) \<le> round_even (x * 2 ^ m)"
    by (rule round_even_ge)
  then have "(of_int (int (k * 2 ^ m)) :: rat) \<le> of_int (round_even (x * 2 ^ m))"
    by (simp only: of_int_le_iff)
  then have "of_nat k * 2 ^ m \<le> (of_int (round_even (x * 2 ^ m)) :: rat)"
    by simp
  then have "of_nat k \<le> (of_int (round_even (x * 2 ^ m)) :: rat) / 2 ^ m"
    by (simp add: field_simps)
  then show ?thesis
    by (simp add: fl_pos_eq [OF assms(2)] p)
qed

lemma fl_of_nat:
  assumes "n < 2 ^ 53"
  shows "fl (of_nat n) = of_nat n"
proof (cases "n = 0")
  case True
  then show ?thesis by (simp add: fl_def)
next
  case False
  then have pos: "(0 :: rat) < of_nat n" by simp
  from assms have "(of_nat n :: rat) < of_nat (2 ^ 53)"
    by (simp only: of_nat_less_iff)
  then have lt: "(of_nat n :: rat) < 2 ^ 53" by simp
  define m where "m = nat (52 - binade (of_nat n))"
  from binade_small [OF pos lt] have m: "52 - binade (of_nat n) = int m"
    by (simp add: m_def)
  have p: "(2 :: rat) powi (52 - binade (of_nat n)) = 2 ^ m"
    unfolding m by (rule power_int_of_nat)
  have "(of_nat n :: rat) * 2 ^ m = of_int (int (n * 2 ^ m))"
    by simp
  then have "round_even (of_nat n * 2 ^ m) = int (n * 2 ^ m)"
    by (simp only: round_even_of_int)
  then show ?thesis
    by (simp add: fl_pos_eq [OF pos] p)
qed

section \<open>The sides of the resized image\<close>

lemma scaled_upper:
  assumes w: "0 < w" "w \<le> m" and t: "0 < t" "t \<le> 4000"
  shows "mul_int_float w (truediv t m) < of_nat t + 1"
proof -
  define U :: rat where "U = 1 + 1 / 2 ^ 53"
  define x :: rat where "x = of_nat t / of_nat m"
  have m: "0 < m" using w by simp
  have x: "0 < x" using t m by (simp add: x_def)
  have U: "0 < U" by (simp add: U_def)
  have s: "truediv t m \<le> x * U" "0 < truediv t m"
    using fl_bounds(2) [OF x] fl_pos [OF x]
    by (simp_all add: truediv_def x_def U_def algebra_simps)
  have wpos: "(0 :: rat) < of_nat w" using w by simp
  have a: "fl (of_nat w) \<le> of_nat w * U" "0 < fl (of_nat w)"
    using fl_bounds(2) [OF wpos] fl_pos [OF wpos]
    by (simp_all add: U_def algebra_simps)
  have prod: "fl (of_nat w) * truediv t m \<le> (of_nat w * U) * (x * U)"
    using a s by (intro mult_mono) simp_all
  have "(of_nat w :: rat) \<le> of_nat m" using w by simp
  then have "(of_nat w :: rat) * x \<le> of_nat t"
    using m t by (simp add: x_def field_simps mult_right_mono)
  then have "(of_nat w * x) * (U * U) \<le> of_nat t * (U * U)"
    using U by (intro mult_right_mono) simp_all
  with prod have p2: "fl (of_nat w) * truediv t m \<le> of_nat t * (U * U)"
    by (simp add: algebra_simps)
  have ppos: "0 < fl (of_nat w) * truediv t m"
    using a s by simp
  have "mul_int_float w (truediv t m) \<le> (fl (of_nat w) * truediv t m) * U"
    using fl_bounds(2) [OF ppos] by (simp add: mul_int_float_def U_def algebra_simps)
  also have "\<dots> \<le> (of_nat t * (U * U)) * U"
    using p2 U by (intro mult_right_mono) simp_all
  also have "\<dots> = of_nat t + of_nat t * (U * U * U - 1)"
    by (simp add: algebra_simps)
  also have "\<dots> < of_nat t + 1"
  proof -
    have d: "0 \<le> U * U * U - 1" "4000 * (U * U * U - 1) < 1"
      by (simp_all add: U_def)
    from t have "(of_nat t :: rat) \<le> 4000" by simp
    then have "of_nat t * (U * U * U - 1) \<le> 4000 * (U * U * U - 1)"
      using d(1) by (rule mult_right_mono)
    with d(2) show ?thesis by linarith
  qed
  finally show ?thesis .
qed

lemma scaled_lower:
  assumes m: "0 < m" and t: "0 < t" "t \<le> 4000"
  shows "of_nat t - 1 < mul_int_float m (truediv t m)"
proof -
  define L :: rat where "L = 1 - 1 / 2 ^ 53"
  define x :: rat where "x = of_nat t / of_nat m"
  have x: "0 < x" using t m by (simp add: x_def)
  have L: "0 < L" by (simp add: L_def)
  have s: "x * L \<le> truediv t m" "0 < truediv t m"
    using fl_bounds(1) [OF x] fl_pos [OF x]
    by (simp_all add: truediv_def x_def L_def algebra_simps)
  have mpos: "(0 :: rat) < of_nat m" using m by simp
  have a: "of_nat m * L \<le> fl (of_nat m)" "0 < fl (of_nat m)"
    using fl_bounds(1) [OF mpos] fl_pos [OF mpos]
    by (simp_all add: L_def algebra_simps)
  have "(of_nat m * L) * (x * L) \<le> fl (of_nat m) * truediv t m"
    using a s x L mpos by (intro mult_mono) simp_all
  moreover have "(of_nat m :: rat) * x = of_nat t"
    using m by (simp add: x_def)
  then have "(of_nat m * L) * (x * L) = of_nat t * (L * L)"
    by (simp add: algebra_simps)
  ultimately have p2: "of_nat t * (L * L) \<le> fl (of_nat m) * truediv t m"
    by simp
  have ppos: "0 < fl (of_nat m) * truediv t m"
    using a s by simp
  have "of_nat t - 1 < of_nat t - of_nat t * (1 - L * L * L)"
  proof -
    have d: "0 \<le> 1 - L * L * L" "4000 * (1 - L * L * L) < 1"
      by (simp_all add: L_def)
    from t have "(of_nat t :: rat) \<le> 4000" by simp
    then have "of_nat t * (1 - L * L * L) \<le> 4000 * (1 - L * L * L)"
      using d(1) by (rule mult_right_mono)
    with d(2) show ?thesis by linarith
  qed
  also have "\<dots> = (of_nat t * (L * L)) * L"
    by (simp add: algebra_simps)
  also have "\<dots> \<le> (fl (of_nat m) * truediv t m) * L"
    using p2 L by (intro mult_right_mono) simp_all
  also have "\<dots> \<le> mul_int_float m (truediv t m)"
    using fl_bounds(1) [OF ppos] by (simp add: mul_int_float_def L_def algebra_simps)
  finally show ?thesis .
qed

lemma py_int_le:
  assumes "x < of_nat t + 1"
  shows "py_int x \<le> t"
proof -
  from assms have "x < of_int (int t + 1)" by simp
  then have "\<lfloor>x\<rfloor> < int t + 1" by (simp only: floor_less_iff)
  then show ?thesis by (simp add: py_int_def)
qed

lemma py_int_ge:
  assumes "of_nat t - 1 < x" "0 < t"
  shows "t - 1 \<le> py_int x"
proof -
  from assms have "of_int (int t - 1) \<le> x" by simp
  then have "int t - 1 \<le> \<lfloor>x\<rfloor>" by (simp only: le_floor_iff)
  then show ?thesis by (simp add: py_int_def)
qed

lemma resized_longer_side:
  assumes h: "0 < h" and w: "0 < w" and t: "0 < t" "t \<le> 4000"
  defines "scale \<equiv> truediv t (max h w)"
  shows "max (py_int (mul_int_float h scale)) (py_int (mul_int_float w scale)) = t - 1
       \<or> max (py_int (mul_int_float h scale)) (py_int (mul_int_float w scale)) = t"
proof -
  have uh: "py_int (mul_int_float h scale) \<le> t"
    unfolding scale_def using h t by (intro py_int_le scaled_upper) simp_all
  have uw: "py_int (mul_int_float w scale) \<le> t"
    unfolding scale_def using w t by (intro py_int_le scaled_upper) simp_all
  have "t - 1 \<le> py_int (mul_int_float (max h w) scale)"
    unfolding scale_def using h t by (intro py_int_ge scaled_lower) simp_all
  then have "t - 1 \<le> max (py_int (mul_int_float h scale)) (py_int (mul_int_float w scale))"
    by (cases "h \<le> w") (simp_all add: max_def)
  with uh uw show ?thesis
    by (auto simp: max_def split: if_splits)
qed

section \<open>The block size\<close>

lemma fl_two_hundredths: "fl (2 / 100) = 5764607523034235 / 288230376151711744"
  by (simp add: float_defs split del: if_split)

lemma block_truncation:
  assumes "n < 2 ^ 31"
  shows "py_int (mul_int_float n (fl (2 / 100))) = n div 50"
proof (cases "n = 0")
  case True
  then show ?thesis
    by (simp add: mul_int_float_def fl_def py_int_def)
next
  case False
  define c :: rat where "c = 5764607523034235 / 288230376151711744"
  define k where "k = n div 50"
  define p :: rat where "p = of_nat n * c"
  have n53: "n < 2 ^ 53"
    using assms by (rule less_le_trans) simp
  have q: "mul_int_float n (fl (2 / 100)) = fl p"
    by (simp only: mul_int_float_def fl_of_nat [OF n53] fl_two_hundredths p_def c_def)
  have npos: "(0 :: rat) < of_nat n" using False by simp
  have ppos: "0 < p" using npos by (simp add: p_def c_def)
  have nk: "50 * k \<le> n" "n \<le> 50 * k + 49"
    by (simp_all add: k_def)
  have kb: "(of_nat k :: rat) \<le> 2 ^ 31"
  proof -
    have "k \<le> 2 ^ 31" using assms by (simp add: k_def)
    then have "(of_nat k :: rat) \<le> of_nat (2 ^ 31)" by (rule of_nat_mono)
    then show ?thesis by simp
  qed
  from nk(1) have "(of_nat (50 * k) :: rat) \<le> of_nat n" by (rule of_nat_mono)
  then have lo: "50 * of_nat k \<le> (of_nat n :: rat)" by simp
  from nk(2) have "(of_nat n :: rat) \<le> of_nat (50 * k + 49)" by (rule of_nat_mono)
  then have hi: "(of_nat n :: rat) \<le> 50 * of_nat k + 49" by simp
  have kp: "of_nat k \<le> p"
    using lo by (simp add: p_def c_def)
  have pk: "p \<le> (50 * of_nat k + 49) * c"
    unfolding p_def using hi by (intro mult_right_mono) (simp_all add: c_def)
  have p53: "p < 2 ^ 53"
    using pk kb by (simp add: c_def)
  have ge: "of_nat k \<le> fl p"
    using kp ppos p53 by (rule fl_ge_nat)
  have "fl p \<le> p + p / 2 ^ 53"
    using ppos by (rule fl_bounds(2))
  also have "\<dots> < of_nat k + 1"
    using pk kb by (simp add: c_def)
  finally have lt: "fl p < of_nat k + 1" .
  from ge have "int k \<le> \<lfloor>fl p\<rfloor>"
    by (simp add: le_floor_iff)
  moreover from lt have "fl p < of_int (int k + 1)" by simp
  then have "\<lfloor>fl p\<rfloor> < int k + 1" by (simp only: floor_less_iff)
  ultimately have "nat \<lfloor>fl p\<rfloor> = k" by simp
  then show ?thesis
    by (simp only: q py_int_def k_def)
qed

lemmas image_defs = preprocess_image_def resize_def float_defs

section \<open>The pipeline\<close>

text \<open>
  Claim C2. A dictionary returned by \<open>process_receipt\<close> whose \<open>success\<close> is true has a
  number under \<open>amount\<close> and a string under \<open>date\<close>, which is the day of the processing
  when \<open>extract_date\<close> gives \<open>None\<close>. When the text was read and is not empty and
  \<open>extract_amount\<close> gives \<open>None\<close>, the dictionary returned is the failure of type
  \<open>validation\<close>, with the text under \<open>raw_text\<close>, cut to its first 500 characters
  followed by three dots when it is longer.
\<close>

theorem process_receipt_amount_and_date:
  "(dict_get (process_receipt outcome today) ''success'' = PBool True \<longrightarrow>
      (\<exists>a. dict_get (process_receipt outcome today) ''amount'' = PFloat a)
      \<and> (\<exists>d. dict_get (process_receipt outcome today) ''date'' = PStr d)
      \<and> (\<forall>text. outcome = Ocr_text text \<and> extract_date text = None \<longrightarrow>
             dict_get (process_receipt outcome today) ''date'' = PStr today))
   \<and> (\<forall>text. outcome = Ocr_text text \<and> text \<noteq> [] \<and> extract_amount text = None \<longrightarrow>
         process_receipt outcome today =
           [(''success'', PBool False),
            (''error'', PStr (str (''Could not find a valid amount in the receipt. ''
                @ ''Please ensure the receipt image is clear and contains readable text.''))),
            (''error_type'', PStr (str ''validation'')),
            (''raw_text'',
               PStr (if length text > 500 then take 500 text @ str ''...'' else text))])"
  by (cases outcome)
     (auto simp add: process_receipt_def dict_defs falsy_def str_or_def Let_def
           split: option.splits)

theorem process_receipt_amount_and_date_witness:
  "dict_get (process_receipt (Ocr_text (str ''TOTAL: 649.00'')) (str ''2026-11-04'')) ''success''
     = PBool True
   \<and> dict_get (process_receipt (Ocr_text (str ''TOTAL: 649.00'')) (str ''2026-11-04'')) ''date''
     = PStr (str ''2026-11-04'')
   \<and> str ''Thank you'' \<noteq> [] \<and> extract_amount (str ''Thank you'') = None
   \<and> dict_get (process_receipt (Ocr_text (str ''Thank you'')) (str ''2026-11-04''))
         ''error_type'' = PStr (str ''validation'')"
proof -
  have a: "extract_amount (str ''TOTAL: 649.00'') = Some 649"
    by (simp add: amount_defs)
  have d: "extract_date (str ''TOTAL: 649.00'') = None"
    by (simp add: date_defs)
  have n: "str ''TOTAL: 649.00'' \<noteq> []"
    by (simp add: str_simps)
  have s: "dict_get (process_receipt (Ocr_text (str ''TOTAL: 649.00'')) (str ''2026-11-04''))
      ''success'' = PBool True"
    using a n by (simp add: process_receipt_def dict_defs falsy_def Let_def)
  have e: "str ''Thank you'' \<noteq> []"
    by (simp add: str_simps)
  have m: "extract_amount (str ''Thank you'') = None"
    by (simp add: amount_defs)
  from s d process_receipt_amount_and_date
         [of "Ocr_text (str ''TOTAL: 649.00'')" "str ''2026-11-04''"]
  have w1: "dict_get (process_receipt (Ocr_text (str ''TOTAL: 649.00'')) (str ''2026-11-04''))
      ''date'' = PStr (str ''2026-11-04'')"
    by blast
  from e m process_receipt_amount_and_date [of "Ocr_text (str ''Thank you'')" "str ''2026-11-04''"]
  have w2: "dict_get (process_receipt (Ocr_text (str ''Thank you'')) (str ''2026-11-04''))
         ''error_type'' = PStr (str ''validation'')"
    by (simp add: dict_get_def)
  from s w1 e m w2 show ?thesis by blast
qed

text \<open>
  Claim C9. When \<open>extract_amount\<close> gives exactly zero, \<open>process_receipt\<close> returns the
  dictionary of the missing amount, with \<open>success\<close> false and the type \<open>validation\<close>:
  the same dictionary it returns for a text that is not empty when \<open>extract_amount\<close>
  gives \<open>None\<close>.
\<close>

theorem zero_amount_is_missing_amount:
  "extract_amount text = Some 0 \<longrightarrow>
     process_receipt (Ocr_text text) today = missing_amount text
     \<and> dict_get (process_receipt (Ocr_text text) today) ''success'' = PBool False
     \<and> dict_get (process_receipt (Ocr_text text) today) ''error_type'' = PStr (str ''validation'')
     \<and> (\<forall>text'. text' \<noteq> [] \<and> extract_amount text' = None \<longrightarrow>
           process_receipt (Ocr_text text') today = missing_amount text')"
proof
  assume z: "extract_amount text = Some 0"
  then have "text \<noteq> []"
    using extract_amount_empty by auto
  with z show "process_receipt (Ocr_text text) today = missing_amount text
     \<and> dict_get (process_receipt (Ocr_text text) today) ''success'' = PBool False
     \<and> dict_get (process_receipt (Ocr_text text) today) ''error_type'' = PStr (str ''validation'')
     \<and> (\<forall>text'. text' \<noteq> [] \<and> extract_amount text' = None \<longrightarrow>
           process_receipt (Ocr_text text') today = missing_amount text')"
    by (simp add: process_receipt_def dict_defs falsy_def Let_def)
qed

theorem zero_amount_is_missing_amount_witness:
  "extract_amount (str ''Total: 0.00'') = Some 0
   \<and> dict_get (process_receipt (Ocr_text (str ''Total: 0.00'')) (str ''2026-11-04'')) ''success''
       = PBool False"
proof -
  have z: "extract_amount (str ''Total: 0.00'') = Some 0"
    by (simp add: amount_defs)
  from z zero_amount_is_missing_amount [of "str ''Total: 0.00''" "str ''2026-11-04''"]
  show ?thesis by blast
qed

section \<open>Amounts and digits\<close>

text \<open>
  Claim C10, as the code has it. \<open>extract_amount\<close> returns a value exactly when the text
  contains a decimal digit, that is a character \<open>\\d\<close> matches: one of the ten ASCII
  digits or another digit of Unicode category Nd. Any digit will do, wherever it stands.
\<close>

theorem extract_amount_digit:
  "extract_amount text \<noteq> None \<longleftrightarrow> (\<exists>c\<in>set text. is_digit c)"
proof
  assume some: "extract_amount text \<noteq> None"
  show "\<exists>c\<in>set text. is_digit c"
  proof (cases "re_search (total_patterns ! 0) text")
    case (Some m)
    then have "re_search (labelled (alts (map word_ci
        [''grand total'', ''grandtotal'', ''net amount'', ''amount payable'', ''amount to pay'',
         ''total amount'', ''bill total'', ''grand total'']))) text = Some m"
      by (simp only: total_patterns_eq nth_Cons_0)
    from labelled_search [OF this] show ?thesis by blast
  next
    case None
    note n0 = None
    show ?thesis
    proof (cases "re_search (total_patterns ! 1) text")
      case (Some m)
      then have "re_search (labelled (word_ci ''total'')) text = Some m"
        by (simp only: total_patterns_eq nth_Cons_0 nth_Cons_Suc One_nat_def)
      from labelled_search [OF this] show ?thesis by blast
    next
      case None
      with n0 some have "parse_amounts (findall amount_pattern text) \<noteq> []"
        by (auto simp: extract_amount_unfold split: if_splits)
      then have "findall amount_pattern text \<noteq> []"
        by auto
      from findall_needs_digit [OF this] show ?thesis .
    qed
  qed
next
  assume "\<exists>c\<in>set text. is_digit c"
  from findall_digit [OF this] have ne: "findall amount_pattern text \<noteq> []" .
  have "length (parse_amounts (findall amount_pattern text)) = length (findall amount_pattern text)"
    using findall_parses by (intro parse_amounts_length) blast
  with ne have "parse_amounts (findall amount_pattern text) \<noteq> []"
    by auto
  moreover have "\<And>m. re_search (total_patterns ! 0) text = Some m \<Longrightarrow> amount_of (group m 1) \<noteq> None"
    using labelled_parses by (simp only: total_patterns_eq nth_Cons_0) fastforce
  moreover have "\<And>m. re_search (total_patterns ! 1) text = Some m \<Longrightarrow> amount_of (group m 1) \<noteq> None"
    using labelled_parses by (simp only: total_patterns_eq nth_Cons_0 nth_Cons_Suc One_nat_def) fastforce
  ultimately show "extract_amount text \<noteq> None"
    by (auto simp: extract_amount_unfold split: option.splits)
qed

theorem extract_amount_digit_witness:
  "(\<exists>c\<in>set (str ''Tel 98765''). is_digit c) \<and> extract_amount (str ''Tel 98765'') \<noteq> None
   \<and> \<not> (\<exists>c\<in>set (str ''Thank you''). is_digit c) \<and> extract_amount (str ''Thank you'') = None"
proof -
  have d: "\<exists>c\<in>set (str ''Tel 98765''). is_digit c"
    by (simp add: str_simps class_defs)
  have n: "\<not> (\<exists>c\<in>set (str ''Thank you''). is_digit c)"
    by (simp add: str_simps class_defs)
  from d extract_amount_digit [of "str ''Tel 98765''"]
  have 1: "extract_amount (str ''Tel 98765'') \<noteq> None" by blast
  from n extract_amount_digit [of "str ''Thank you''"]
  have 2: "extract_amount (str ''Thank you'') = None" by blast
  from d n 1 2 show ?thesis by blast
qed

text \<open>
  Claim C10, as it is stated, fails on the text made of the one character U+0663, the
  Arabic-Indic digit three: it contains no ASCII digit, \<open>\\d\<close> matches it and
  \<open>float\<close> reads it as 3.
\<close>

theorem extract_amount_arabic_digit:
  "extract_amount [0x663] = Some 3 \<and> \<not> has_ascii_digit [0x663]"
  by (simp add: amount_defs nd_starts_def)

section \<open>The number of a total line\<close>

text \<open>
  Claim C5. The number of the amount patterns starts with one to three digits and goes on
  only with groups of a comma and three digits, so that a number of four digits or more
  written without commas is read up to its third digit: \<open>Total: 1500.00\<close> gives 150,
  and the fallback on \<open>Paid 12345.00\<close> gives 123 as the largest number. The pattern of
  the bare \<open>total\<close> also matches inside \<open>SUBTOTAL\<close>: on the lines of a subtotal of
  550.00, a tax of 99.00 and a total of 649.00, each amount after a rupee sign, the result
  is the subtotal, 550.
\<close>

theorem extract_amount_cuts_number:
  "extract_amount (str ''Total: 1500.00'') = Some 150
   \<and> extract_amount (str ''Paid 12345.00'') = Some 123
   \<and> extract_amount
        (str ''SUBTOTAL:               '' @ [0x20B9] @ str ''550.00'' @ [10]
         @ str ''TAX (18%):              '' @ [0x20B9] @ str ''99.00'' @ [10]
         @ str ''TOTAL:                  '' @ [0x20B9] @ str ''649.00'') = Some 550"
  by (simp add: amount_defs)

section \<open>The size of the preprocessed image\<close>

text \<open>
  Claim C7, as the code has it. When \<open>preprocess_image\<close> produces an image, both sides of
  the input are at least 100; the longer side of the result is 1199 or 1200 when the longer
  side of the input is below 1000, it is 3999 or 4000 when the longer side of the input is
  above 4000, and the shape is unchanged otherwise. The new sides are \<open>int(w * scale)\<close>
  and \<open>int(h * scale)\<close> with \<open>scale\<close> the double nearest to the ratio: the product can
  fall just below the target, and \<open>int\<close> cuts it down to the integer below.
\<close>

theorem preprocess_image_longer_side:
  "preprocess_image h w = Some p \<longrightarrow>
     100 \<le> h \<and> 100 \<le> w
     \<and> (max h w < 1000 \<longrightarrow>
           max (out_height p) (out_width p) = 1199 \<or> max (out_height p) (out_width p) = 1200)
     \<and> (4000 < max h w \<longrightarrow>
           max (out_height p) (out_width p) = 3999 \<or> max (out_height p) (out_width p) = 4000)
     \<and> (1000 \<le> max h w \<and> max h w \<le> 4000 \<longrightarrow> out_height p = h \<and> out_width p = w)"
proof
  assume some: "preprocess_image h w = Some p"
  then have big: "100 \<le> h" "100 \<le> w"
    by (auto simp: preprocess_image_def split: if_splits)
  then have pos: "0 < h" "0 < w" by simp_all
  have up: "max (out_height p) (out_width p) = 1199 \<or> max (out_height p) (out_width p) = 1200"
    if "max h w < 1000"
  proof -
    from some that big have "resize (py_int (mul_int_float w (truediv 1200 (max h w))))
        (py_int (mul_int_float h (truediv 1200 (max h w))))
        = Some (out_height p, out_width p)"
      by (auto simp: preprocess_image_def Let_def split: if_splits option.splits)
    then have "out_height p = py_int (mul_int_float h (truediv 1200 (max h w)))"
      "out_width p = py_int (mul_int_float w (truediv 1200 (max h w)))"
      by (auto simp: resize_def split: if_splits)
    with resized_longer_side [OF pos, of 1200] show ?thesis
      by simp
  qed
  have down: "max (out_height p) (out_width p) = 3999 \<or> max (out_height p) (out_width p) = 4000"
    if "4000 < max h w"
  proof -
    from some that big have "resize (py_int (mul_int_float w (truediv 4000 (max h w))))
        (py_int (mul_int_float h (truediv 4000 (max h w))))
        = Some (out_height p, out_width p)"
      by (auto simp: preprocess_image_def Let_def split: if_splits option.splits)
    then have "out_height p = py_int (mul_int_float h (truediv 4000 (max h w)))"
      "out_width p = py_int (mul_int_float w (truediv 4000 (max h w)))"
      by (auto simp: resize_def split: if_splits)
    with resized_longer_side [OF pos, of 4000] show ?thesis
      by simp
  qed
  have same: "out_height p = h \<and> out_width p = w"
    if "1000 \<le> max h w \<and> max h w \<le> 4000"
    using some that big
    by (auto simp: preprocess_image_def Let_def split: if_splits)
  from big up down same
  show "100 \<le> h \<and> 100 \<le> w
     \<and> (max h w < 1000 \<longrightarrow>
           max (out_height p) (out_width p) = 1199 \<or> max (out_height p) (out_width p) = 1200)
     \<and> (4000 < max h w \<longrightarrow>
           max (out_height p) (out_width p) = 3999 \<or> max (out_height p) (out_width p) = 4000)
     \<and> (1000 \<le> max h w \<and> max h w \<le> 4000 \<longrightarrow> out_height p = h \<and> out_width p = w)"
    by blast
qed

theorem preprocess_image_longer_side_witness:
  "preprocess_image 500 300 =
      Some \<lparr>out_height = 1200, out_width = 720, block_size = 7, threshold_c = 15\<rparr>
   \<and> max (500 :: nat) 300 < 1000
   \<and> (max (1200 :: nat) 720 = 1199 \<or> max (1200 :: nat) 720 = 1200)
   \<and> preprocess_image 2000 5000 =
      Some \<lparr>out_height = 1600, out_width = 4000, block_size = 41, threshold_c = 15\<rparr>
   \<and> 4000 < max (2000 :: nat) 5000
   \<and> (max (1600 :: nat) 4000 = 3999 \<or> max (1600 :: nat) 4000 = 4000)"
proof -
  have a: "preprocess_image 500 300 =
      Some \<lparr>out_height = 1200, out_width = 720, block_size = 7, threshold_c = 15\<rparr>"
    by (simp add: image_defs split del: if_split)
  have b: "preprocess_image 2000 5000 =
      Some \<lparr>out_height = 1600, out_width = 4000, block_size = 41, threshold_c = 15\<rparr>"
    by (simp add: image_defs split del: if_split)
  from a preprocess_image_longer_side [of 500 300
      "\<lparr>out_height = 1200, out_width = 720, block_size = 7, threshold_c = 15\<rparr>"]
  have 1: "max (1200 :: nat) 720 = 1199 \<or> max (1200 :: nat) 720 = 1200"
    by simp
  from b preprocess_image_longer_side [of 2000 5000
      "\<lparr>out_height = 1600, out_width = 4000, block_size = 41, threshold_c = 15\<rparr>"]
  have 2: "max (1600 :: nat) 4000 = 3999 \<or> max (1600 :: nat) 4000 = 4000"
    by simp
  from a b 1 2 show ?thesis by simp
qed

text \<open>
  Claim C7, as it is stated, fails on an image 4210 high and 3000 wide: its longer side
  is above 4000, and the longer side of the result is 3999, not 4000.
\<close>

theorem preprocess_image_3999:
  "preprocess_image 4210 3000 =
      Some \<lparr>out_height = 3999, out_width = 2850, block_size = 61, threshold_c = 15\<rparr>"
  by (simp add: image_defs split del: if_split)

section \<open>The parameters of the threshold\<close>

text \<open>
  Claim C8, as the code has it. The block size of the adaptive threshold is
  \<open>max(3, int(min(h, w) * 0.02) | 1)\<close>, where \<open>h\<close> and \<open>w\<close> are the height and the width
  of the decoded image, read before the image is rescaled, and \<open>int\<close> cuts the product
  down: for sides below \<open>2 ^ 31\<close> it is \<open>max(3, (min(h, w) // 50) | 1)\<close>. The offset is 15.
\<close>

theorem preprocess_image_block_size:
  "preprocess_image h w = Some p \<and> h < 2 ^ 31 \<and> w < 2 ^ 31 \<longrightarrow>
     block_size p = max 3 (or (min h w div 50) 1) \<and> threshold_c p = 15"
proof
  assume a: "preprocess_image h w = Some p \<and> h < 2 ^ 31 \<and> w < 2 ^ 31"
  then have "min h w < 2 ^ 31" by (auto simp: min_def)
  from block_truncation [OF this]
  have t: "py_int (mul_int_float (min h w) (fl (2 / 100))) = min h w div 50" .
  from a have "block_size p = max 3 (or (py_int (mul_int_float (min h w) (fl (2 / 100)))) 1)
      \<and> threshold_c p = 15"
    by (auto simp add: preprocess_image_def Let_def simp del: One_nat_def
          split: if_splits option.splits)
  then show "block_size p = max 3 (or (min h w div 50) 1) \<and> threshold_c p = 15"
    unfolding t .
qed

theorem preprocess_image_block_size_witness:
  "preprocess_image 500 500 =
      Some \<lparr>out_height = 1200, out_width = 1200, block_size = 11, threshold_c = 15\<rparr>
   \<and> (500 :: nat) < 2 ^ 31
   \<and> (11 :: nat) = max 3 (or (min 500 500 div 50) 1)"
proof -
  have a: "preprocess_image 500 500 =
      Some \<lparr>out_height = 1200, out_width = 1200, block_size = 11, threshold_c = 15\<rparr>"
    by (simp add: image_defs split del: if_split)
  have b: "(500 :: nat) < 2 ^ 31" by simp
  from a b preprocess_image_block_size [of 500 500
      "\<lparr>out_height = 1200, out_width = 1200, block_size = 11, threshold_c = 15\<rparr>"]
  have "(11 :: nat) = max 3 (or (min 500 500 div 50) 1)"
    by (simp del: One_nat_def)
  with a b show ?thesis by blast
qed

text \<open>
  Claim C8, as it is stated, fails on an image of 500 by 500, which is rescaled to 1200 by
  1200 and thresholded with block size 11, where the formula of the claim on the rescaled
  image gives 25; and on an image of 1080 by 2000, which is not rescaled and is thresholded
  with block size 21, where rounding gives 23.
\<close>

theorem block_size_not_of_rescaled_image:
  "preprocess_image 500 500 =
      Some \<lparr>out_height = 1200, out_width = 1200, block_size = 11, threshold_c = 15\<rparr>
   \<and> spec_block_size 1200 1200 = 25
   \<and> preprocess_image 1080 2000 =
      Some \<lparr>out_height = 1080, out_width = 2000, block_size = 21, threshold_c = 15\<rparr>
   \<and> spec_block_size 1080 2000 = 23"
  by (simp add: image_defs spec_block_size_def split del: if_split)

end
